(* ===== verification/Prelude.thy ===== *)
theory Prelude
  imports Main "HOL-Library.Char_ord" "HOL-Library.List_Lexorder" "HOL-Library.Multiset"
begin

text \<open>
  Shared vocabulary of the contact-book development.  Keys of the index are
  \<open>std::string\<close> values, compared lexicographically byte by byte; this is
  \<open>string\<close> (\<open>char list\<close>) under the orders of \<open>Char_ord\<close> (characters as
  unsigned bytes) and \<open>List_Lexorder\<close>.  Record identifiers are C++ \<open>int\<close>s that
  are only stored, compared and offset by one, so they are modelled as \<open>int\<close>.
  The theory also holds the lemmas on sorted association lists that the tree
  proofs share, and the collections that carry them.
\<close>

type_synonym key = string
type_synonym record_id = int

text \<open>An association list from keys to their record lists, the abstract view of the tree.\<close>
type_synonym 'k index_list = "('k \<times> record_id list) list"

named_theorems sorted_simps "rewriting of sortedness of key lists split at a point"
named_theorems rec_simps "lookups in sorted association lists"

abbreviation sorted_keys :: "('k::linorder \<times> 'v) list \<Rightarrow> bool" where
  "sorted_keys ps \<equiv> sorted_wrt (<) (map fst ps)"

subsection \<open>Lookup with an empty default\<close>

text \<open>
  The index answers a query for an absent key with an empty record list, never with an
  error; \<open>lookup_list\<close> is the association-list lookup with that default.
\<close>

definition lookup_list :: "('k \<times> 'v list) list \<Rightarrow> 'k \<Rightarrow> 'v list" where
  "lookup_list ps k = (case map_of ps k of None \<Rightarrow> [] | Some vs \<Rightarrow> vs)"

subsection \<open>Sorted key lists\<close>

lemma sorted_keys_append [sorted_simps]:
  "sorted_keys (xs @ ys) \<longleftrightarrow>
     sorted_keys xs \<and> sorted_keys ys \<and> (\<forall>x\<in>set xs. \<forall>y\<in>set ys. fst x < fst y)"
  by (simp add: sorted_wrt_append)

lemma sorted_keys_Cons [sorted_simps]:
  "sorted_keys (x # xs) \<longleftrightarrow> (\<forall>y\<in>set xs. fst x < fst y) \<and> sorted_keys xs"
  by simp

lemma lookup_list_Nil [simp, rec_simps]: "lookup_list [] k = []"
  by (simp add: lookup_list_def)

lemma lookup_list_Cons [simp, rec_simps]:
  "lookup_list ((a, vs) # ps) k = (if a = k then vs else lookup_list ps k)"
  by (simp add: lookup_list_def)

lemma map_of_sorted_less:
  "sorted_keys ps \<Longrightarrow> \<forall>p\<in>set ps. k < fst p \<Longrightarrow> map_of ps k = None"
  by (induction ps) auto

lemma lookup_list_notin [rec_simps]:
  "\<forall>p\<in>set ps. fst p \<noteq> k \<Longrightarrow> lookup_list ps k = []"
  by (induction ps) auto

lemma lookup_list_append_left [rec_simps]:
  "\<forall>p\<in>set ys. fst p \<noteq> k \<Longrightarrow> lookup_list (xs @ ys) k = lookup_list xs k"
  by (induction xs) (auto simp: lookup_list_notin)

lemma lookup_list_append_right [rec_simps]:
  "\<forall>p\<in>set xs. fst p \<noteq> k \<Longrightarrow> lookup_list (xs @ ys) k = lookup_list ys k"
  by (induction xs) auto

text \<open>
  Lookup at a node of a search tree: the keys on the left are smaller, those on the
  right are at least the node's key (equality is allowed, since a record list can be
  left behind below a promoted successor).
\<close>

lemma lookup_list_node [rec_simps]:
  fixes a :: "'k::linorder"
  assumes "\<forall>p\<in>set xs. fst p < a" and "\<forall>p\<in>set ys. a \<le> fst p"
  shows "lookup_list (xs @ (a, v) # ys) k =
           (if k < a then lookup_list xs k else if k = a then v else lookup_list ys k)"
proof (cases "k < a")
  case True
  with assms(2) have "\<forall>p\<in>set ((a, v) # ys). fst p \<noteq> k" by force
  with True show ?thesis by (simp add: lookup_list_append_left)
next
  case False
  with assms(1) have "\<forall>p\<in>set xs. fst p \<noteq> k" by force
  with False show ?thesis by (simp add: lookup_list_append_right)
qed

lemma lookup_list_present:
  "list_all (\<lambda>p. snd p \<noteq> []) ps \<Longrightarrow> k \<in> fst ` set ps \<Longrightarrow> lookup_list ps k \<noteq> []"
proof (induction ps)
  case (Cons p ps)
  then show ?case by (cases p) (auto simp: image_iff)
qed simp

end
