(* ===== verification/Tree_Node.thy ===== *)
theory Tree_Node
  imports Prelude
begin

text \<open>
  The nodes of the AVL index (\<open>src/binary_tree.h\<close>, struct \<open>TreeNode\<close>) and the
  helpers of \<open>src/binary_tree.cpp\<close> that work on one node: \<open>getHeight\<close>,
  \<open>getBalance\<close>, \<open>rightRotate\<close>, \<open>leftRotate\<close>, \<open>findMin\<close> and the private
  \<open>search\<close>.  A \<open>std::unique_ptr<TreeNode>\<close> is a value of \<open>'k tree\<close>: \<open>Null\<close>
  is the null pointer, \<open>TreeNode key recordNumbers left right height\<close> an owned
  node, fields in the order of the struct.  Since every node is owned by exactly
  one parent, the pointer structure is a tree and the model passes subtrees by
  value, as the release/reset pairs of the source do.  A dereference of a null
  pointer (undefined behaviour in C++) is the value \<open>None\<close>.

  The theory ends with the invariants of the index: the cached heights are the
  real ones and every node is balanced (\<open>avl\<close>), the in-order keys are strictly
  increasing (\<open>bst\<close>), and no node has an empty record list (\<open>no_empty\<close>).
\<close>

datatype 'k tree =
    Null
  | TreeNode 'k "record_id list" "'k tree" "'k tree" nat

text \<open>The constructor \<open>TreeNode(key, recordNumber)\<close>: one record, no children, height 1.\<close>

definition newNode :: "'k \<Rightarrow> record_id \<Rightarrow> 'k tree" where
  "newNode k r = TreeNode k [r] Null Null 1"

fun getHeight :: "'k tree \<Rightarrow> nat" where
  "getHeight Null = 0"
| "getHeight (TreeNode _ _ _ _ h) = h"

fun getBalance :: "'k tree \<Rightarrow> int" where
  "getBalance Null = 0"
| "getBalance (TreeNode _ _ l r _) = int (getHeight l) - int (getHeight r)"

text \<open>
  A node whose cached height is recomputed from its children, the statement
  \<open>n->height = std::max(getHeight(n->left), getHeight(n->right)) + 1\<close> that the
  rotations, \<open>insert\<close> and \<open>deleteNode\<close> all execute.
\<close>

definition mkNode :: "'k \<Rightarrow> record_id list \<Rightarrow> 'k tree \<Rightarrow> 'k tree \<Rightarrow> 'k tree" where
  "mkNode k rs l r = TreeNode k rs l r (max (getHeight l) (getHeight r) + 1)"

text \<open>
  \<open>rightRotate(y)\<close>: \<open>x = y->left\<close> becomes the root, \<open>x->right\<close> (T2) becomes
  \<open>y->left\<close>; \<open>y\<close>'s height is recomputed before \<open>x\<close>'s.  A missing left child is
  a null dereference.
\<close>

fun rightRotate :: "'k tree \<Rightarrow> 'k tree option" where
  "rightRotate (TreeNode yk yrs (TreeNode xk xrs xl t2 _) yr _) =
     Some (mkNode xk xrs xl (mkNode yk yrs t2 yr))"
| "rightRotate _ = None"

fun leftRotate :: "'k tree \<Rightarrow> 'k tree option" where
  "leftRotate (TreeNode xk xrs xl (TreeNode yk yrs t2 yr _) _) =
     Some (mkNode yk yrs (mkNode xk xrs xl t2) yr)"
| "leftRotate _ = None"

text \<open>
  \<open>findMin\<close> follows left pointers to the leftmost node and returns it; the model
  returns the payload the caller reads (key and record list).  On a null argument
  the loop guard dereferences null.
\<close>

fun findMin :: "'k tree \<Rightarrow> ('k \<times> record_id list) option" where
  "findMin Null = None"
| "findMin (TreeNode k rs Null _ _) = Some (k, rs)"
| "findMin (TreeNode _ _ l _ _) = findMin l"

text \<open>The private \<open>search(node, key)\<close>: the subtree rooted at the matching node, or null.\<close>

fun search_node :: "'k::linorder tree \<Rightarrow> 'k \<Rightarrow> 'k tree" where
  "search_node Null k = Null"
| "search_node (TreeNode nk rs l r h) k =
     (if nk = k then TreeNode nk rs l r h
      else if k < nk then search_node l k
      else search_node r k)"

subsection \<open>Abstraction and invariants\<close>

fun inorder :: "'k tree \<Rightarrow> 'k index_list" where
  "inorder Null = []"
| "inorder (TreeNode k rs l r _) = inorder l @ (k, rs) # inorder r"

text \<open>The real height, against which the cached \<open>height\<close> field is checked.\<close>

fun ht :: "'k tree \<Rightarrow> nat" where
  "ht Null = 0"
| "ht (TreeNode _ _ l r _) = max (ht l) (ht r) + 1"

fun avl :: "'k tree \<Rightarrow> bool" where
  "avl Null = True"
| "avl (TreeNode _ _ l r h) =
     (h = max (ht l) (ht r) + 1 \<and> ht l \<le> ht r + 1 \<and> ht r \<le> ht l + 1 \<and> avl l \<and> avl r)"

definition bst :: "'k::linorder tree \<Rightarrow> bool" where
  "bst t \<longleftrightarrow> sorted_keys (inorder t)"

definition no_empty :: "'k tree \<Rightarrow> bool" where
  "no_empty t \<longleftrightarrow> list_all (\<lambda>p. snd p \<noteq> []) (inorder t)"

definition invar :: "'k::linorder tree \<Rightarrow> bool" where
  "invar t \<longleftrightarrow> avl t \<and> bst t \<and> no_empty t"

text \<open>The map the index represents: a key's records, empty for an absent key.\<close>

abbreviation lookup :: "'k tree \<Rightarrow> 'k \<Rightarrow> record_id list" where
  "lookup t \<equiv> lookup_list (inorder t)"

subsection \<open>Basic facts\<close>

named_theorems node_simps "evaluation of the node helpers"

lemma getHeight_avl [simp]: "avl t \<Longrightarrow> getHeight t = ht t"
  by (cases t) auto

lemma ht_mkNode [simp]: "ht (mkNode k rs l r) = max (ht l) (ht r) + 1"
  by (simp add: mkNode_def)

lemma inorder_mkNode [simp]: "inorder (mkNode k rs l r) = inorder l @ (k, rs) # inorder r"
  by (simp add: mkNode_def)

lemma avl_mkNode [node_simps]:
  "avl (mkNode k rs l r) \<longleftrightarrow>
     ht l \<le> ht r + 1 \<and> ht r \<le> ht l + 1 \<and> avl l \<and> avl r"
  by (auto simp: mkNode_def max_def)

lemma ht_Null_iff [simp]: "ht t = 0 \<longleftrightarrow> t = Null"
  by (cases t) auto

lemma inorder_Null_iff [simp]: "inorder t = [] \<longleftrightarrow> t = Null"
  by (cases t) auto

lemma rightRotate_inorder:
  "rightRotate t = Some t' \<Longrightarrow> inorder t' = inorder t"
  by (induction t rule: rightRotate.induct) auto

lemma leftRotate_inorder:
  "leftRotate t = Some t' \<Longrightarrow> inorder t' = inorder t"
  by (induction t rule: leftRotate.induct) auto

lemma findMin_inorder:
  "findMin t = Some p \<longleftrightarrow> t \<noteq> Null \<and> p = hd (inorder t)"
  by (induction t rule: findMin.induct) (auto simp: hd_append)

lemma bst_TreeNode [simp]:
  "bst (TreeNode k rs l r h) \<longleftrightarrow>
     bst l \<and> bst r \<and> (\<forall>p\<in>set (inorder l). fst p < k) \<and> (\<forall>p\<in>set (inorder r). k < fst p)"
  by (auto simp: bst_def sorted_wrt_append) (fastforce intro: order.strict_trans)

lemma bst_Null [simp]: "bst Null"
  by (simp add: bst_def)

lemma no_empty_TreeNode [simp]:
  "no_empty (TreeNode k rs l r h) \<longleftrightarrow> no_empty l \<and> rs \<noteq> [] \<and> no_empty r"
  by (simp add: no_empty_def)

lemma no_empty_Null [simp]: "no_empty Null"
  by (simp add: no_empty_def)

lemma no_empty_inorder_eq:
  "inorder t' = inorder l @ (k, rs) # inorder r \<Longrightarrow>
   no_empty t' \<longleftrightarrow> no_empty l \<and> rs \<noteq> [] \<and> no_empty r"
  by (simp add: no_empty_def)

end
