(* ===== verification/Tree_Insert.thy ===== *)
theory Tree_Insert
  imports Tree_Node
begin

text \<open>
  Insertion into the AVL index: \<open>BinaryTree::insert(TreeNode*, key, recordNumber)\<close>
  of \<open>src/binary_tree.cpp\<close> (lines 80--124).  \<open>insert_node\<close> is the recursive
  descent; \<open>insert_fixup\<close> is what every level executes after the recursive call
  returns: the height update, the balance, and the four rotation cases chosen by
  comparing the inserted key with the child's key.  The abstract operation is
  \<open>ins_rec\<close> on the sorted association list of the tree: append the record to an
  existing key, or add the key with a one-element list at its place.

  The central lemma \<open>insert_node_spec\<close> is proved by structural induction with
  a strengthened hypothesis: besides balance and the in-order refinement it says
  that when the subtree grew by one level, its root leans towards the side the
  key went to (\<open>grown\<close>).  That is what makes the code's key comparison pick the
  right single or double rotation.
\<close>

text \<open>\<open>node->left->key\<close>: the key of a node the code knows to be present.\<close>

fun keyOf :: "'k tree \<Rightarrow> 'k" where
  "keyOf (TreeNode k _ _ _ _) = k"

text \<open>
  The rebalancing tail of \<open>insert\<close> (lines 94--123) for the node with fields
  \<open>nk rs l r\<close> after its child was replaced.  The cases are tested in the order
  of the source: left-left, right-right, left-right, right-left.
\<close>

definition insert_fixup ::
  "'k::linorder \<Rightarrow> 'k \<Rightarrow> record_id list \<Rightarrow> 'k tree \<Rightarrow> 'k tree \<Rightarrow> 'k tree option" where
  "insert_fixup k nk rs l r =
     (let node = mkNode nk rs l r; balance = getBalance node in
      if balance > 1 \<and> k < keyOf l then rightRotate node
      else if balance < -1 \<and> k > keyOf r then leftRotate node
      else if balance > 1 \<and> k > keyOf l then
        (case leftRotate l of
           None \<Rightarrow> None
         | Some l' \<Rightarrow> rightRotate (TreeNode nk rs l' r (getHeight node)))
      else if balance < -1 \<and> k < keyOf r then
        (case rightRotate r of
           None \<Rightarrow> None
         | Some r' \<Rightarrow> leftRotate (TreeNode nk rs l r' (getHeight node)))
      else Some node)"

fun insert_node :: "'k::linorder tree \<Rightarrow> 'k \<Rightarrow> record_id \<Rightarrow> 'k tree option" where
  "insert_node Null k r = Some (newNode k r)"
| "insert_node (TreeNode nk rs l rt h) k r =
     (if k < nk then
        (case insert_node l k r of None \<Rightarrow> None | Some l' \<Rightarrow> insert_fixup k nk rs l' rt)
      else if k > nk then
        (case insert_node rt k r of None \<Rightarrow> None | Some r' \<Rightarrow> insert_fixup k nk rs l r')
      else Some (TreeNode nk (rs @ [r]) l rt h))"

subsection \<open>The abstract operation\<close>

fun ins_rec :: "'k::linorder \<Rightarrow> record_id \<Rightarrow> 'k index_list \<Rightarrow> 'k index_list" where
  "ins_rec k r [] = [(k, [r])]"
| "ins_rec k r ((a, rs) # ps) =
     (if k < a then (k, [r]) # (a, rs) # ps
      else if k = a then (a, rs @ [r]) # ps
      else (a, rs) # ins_rec k r ps)"

subsection \<open>Balance, height and in-order refinement\<close>

text \<open>A subtree that grew by one level leans towards the side of the inserted key.\<close>

definition grown :: "'k::linorder \<Rightarrow> 'k tree \<Rightarrow> bool" where
  "grown k t = (case t of Null \<Rightarrow> False | TreeNode x _ l r _ \<Rightarrow>
      (k < x \<longrightarrow> ht l = ht r + 1) \<and> (x < k \<longrightarrow> ht r = ht l + 1) \<and> (x = k \<longrightarrow> l = Null \<and> r = Null))"

lemma insert_fixup_left:
  assumes "avl l" "avl r" "avl l'" "ht l \<le> ht r + 1" "ht r \<le> ht l + 1" "k < nk"
    and "ht l' = ht l \<or> ht l' = ht l + 1 \<and> grown k l'"
  shows "\<exists>t'. insert_fixup k nk rs l' r = Some t' \<and> avl t' \<and>
      inorder t' = inorder l' @ (nk, rs) # inorder r \<and>
      (ht t' = max (ht l) (ht r) + 1 \<or> ht t' = max (ht l) (ht r) + 2 \<and> grown k t')"
proof (cases "ht l' = ht l + 1 \<and> ht l = ht r + 1")
  case False
  with assms show ?thesis
    by (auto simp: insert_fixup_def Let_def mkNode_def grown_def max_def)
next
  case True
  with assms obtain x xs a b hx where l': "l' = TreeNode x xs a b hx"
    and g: "grown k l'" by (cases l') auto
  show ?thesis
  proof (cases "k < x")
    case True
    with assms g l' \<open>ht l' = ht l + 1 \<and> ht l = ht r + 1\<close> show ?thesis
      by (auto simp: insert_fixup_def Let_def mkNode_def grown_def max_def)
  next
    case False
    with assms g l' \<open>ht l' = ht l + 1 \<and> ht l = ht r + 1\<close> obtain y ys c d hy where
      b: "b = TreeNode y ys c d hy" and "x < k"
      by (cases b) (auto simp: grown_def)
    with False assms g l' \<open>ht l' = ht l + 1 \<and> ht l = ht r + 1\<close> show ?thesis
      by (auto simp: insert_fixup_def Let_def mkNode_def grown_def max_def)
  qed
qed

lemma insert_fixup_right:
  assumes "avl l" "avl r" "avl r'" "ht l \<le> ht r + 1" "ht r \<le> ht l + 1" "nk < k"
    and "ht r' = ht r \<or> ht r' = ht r + 1 \<and> grown k r'"
  shows "\<exists>t'. insert_fixup k nk rs l r' = Some t' \<and> avl t' \<and>
      inorder t' = inorder l @ (nk, rs) # inorder r' \<and>
      (ht t' = max (ht l) (ht r) + 1 \<or> ht t' = max (ht l) (ht r) + 2 \<and> grown k t')"
proof (cases "ht r' = ht r + 1 \<and> ht r = ht l + 1")
  case False
  with assms show ?thesis
    by (auto simp: insert_fixup_def Let_def mkNode_def grown_def max_def)
next
  case True
  with assms obtain x xs a b hx where r': "r' = TreeNode x xs a b hx"
    and g: "grown k r'" by (cases r') auto
  show ?thesis
  proof (cases "x < k")
    case True
    with assms g r' \<open>ht r' = ht r + 1 \<and> ht r = ht l + 1\<close> show ?thesis
      by (auto simp: insert_fixup_def Let_def mkNode_def grown_def max_def)
  next
    case False
    with assms g r' \<open>ht r' = ht r + 1 \<and> ht r = ht l + 1\<close> obtain y ys c d hy where
      a: "a = TreeNode y ys c d hy" and "k < x"
      by (cases a) (auto simp: grown_def)
    with False assms g r' \<open>ht r' = ht r + 1 \<and> ht r = ht l + 1\<close> show ?thesis
      by (auto simp: insert_fixup_def Let_def mkNode_def grown_def max_def)
  qed
qed

lemma ins_rec_split [rec_simps]:
  "sorted_keys (xs @ (a, rs) # ys) \<Longrightarrow>
   ins_rec k r (xs @ (a, rs) # ys) =
     (if k < a then ins_rec k r xs @ (a, rs) # ys
      else if k = a then xs @ (a, rs @ [r]) # ys
      else xs @ (a, rs) # ins_rec k r ys)"
  by (induction xs) (auto simp: sorted_wrt_append)

lemma insert_node_spec:
  "avl t \<Longrightarrow> bst t \<Longrightarrow> \<exists>t'. insert_node t k r = Some t' \<and> avl t' \<and>
     inorder t' = ins_rec k r (inorder t) \<and> (ht t' = ht t \<or> ht t' = ht t + 1 \<and> grown k t')"
proof (induction t)
  case Null
  then show ?case by (simp add: newNode_def grown_def)
next
  case (TreeNode nk rs l rt h)
  consider (lt) "k < nk" | (eq) "k = nk" | (gt) "nk < k" by fastforce
  then show ?case
  proof cases
    case lt
    with TreeNode obtain l' where l': "insert_node l k r = Some l'" "avl l'"
      "inorder l' = ins_rec k r (inorder l)" "ht l' = ht l \<or> ht l' = ht l + 1 \<and> grown k l'"
      by auto
    with lt TreeNode.prems insert_fixup_left [of l rt l' k nk rs] show ?thesis
      by (auto simp: bst_def ins_rec_split)
  next
    case gt
    with TreeNode obtain r' where r': "insert_node rt k r = Some r'" "avl r'"
      "inorder r' = ins_rec k r (inorder rt)" "ht r' = ht rt \<or> ht r' = ht rt + 1 \<and> grown k r'"
      by auto
    with gt TreeNode.prems insert_fixup_right [of l rt r' nk k rs] show ?thesis
      by (auto simp: bst_def ins_rec_split)
  next
    case eq
    with TreeNode.prems show ?thesis by (auto simp: bst_def ins_rec_split)
  qed
qed

lemma set_ins_rec [rec_simps]:
  "set (map fst (ins_rec k r ps)) = insert k (set (map fst ps))"
  by (induction k r ps rule: ins_rec.induct) auto

lemma sorted_ins_rec:
  "sorted_keys ps \<Longrightarrow> sorted_keys (ins_rec k r ps)"
proof (induction k r ps rule: ins_rec.induct)
  case (2 k r a rs ps)
  have "set (map fst (ins_rec k r ps)) = insert k (set (map fst ps))"
    by (rule set_ins_rec)
  with 2 show ?case by (auto simp: image_iff)
qed simp

lemma no_empty_ins_rec:
  "list_all (\<lambda>p. snd p \<noteq> []) ps \<Longrightarrow> list_all (\<lambda>p. snd p \<noteq> []) (ins_rec k r ps)"
  by (induction k r ps rule: ins_rec.induct) auto

lemma lookup_ins_rec [rec_simps]:
  "sorted_keys ps \<Longrightarrow>
   lookup_list (ins_rec k r ps) k' = (if k' = k then lookup_list ps k @ [r] else lookup_list ps k')"
proof (induction k r ps rule: ins_rec.induct)
  case (2 k r a rs ps)
  then have gt: "\<forall>p\<in>set ps. a < fst p" by auto
  show ?case
  proof (cases "k < a")
    case True
    with gt have "\<forall>p\<in>set ps. fst p \<noteq> k" by force
    with True show ?thesis by (auto simp: lookup_list_notin)
  next
    case False
    with 2 show ?thesis by auto
  qed
qed simp

subsection \<open>Properties of insertion\<close>

lemma insert_node_ok:
  assumes "invar t"
  obtains t' where "insert_node t k r = Some t'" "avl t'"
    "inorder t' = ins_rec k r (inorder t)" "ht t' = ht t \<or> ht t' = ht t + 1"
  using assms insert_node_spec [of t k r] by (auto simp: invar_def)

text \<open>The facts of insertion that the callers of \<open>insert\<close> use.\<close>

lemma insert_node_valid:
  assumes "invar t"
  obtains t' where "insert_node t k r = Some t'" "invar t'"
    "lookup t' = (lookup t)(k := lookup t k @ [r])"
proof -
  from assms obtain t' where t': "insert_node t k r = Some t'" "avl t'"
    "inorder t' = ins_rec k r (inorder t)"
    by (rule insert_node_ok)
  from assms have s: "sorted_keys (inorder t)" "list_all (\<lambda>p. snd p \<noteq> []) (inorder t)"
    by (auto simp: invar_def bst_def no_empty_def)
  with t' have "invar t'"
    by (simp add: invar_def bst_def no_empty_def sorted_ins_rec no_empty_ins_rec)
  moreover from s t' have "lookup t' = (lookup t)(k := lookup t k @ [r])"
    by (simp add: lookup_ins_rec fun_eq_iff)
  ultimately show ?thesis using t' that by blast
qed

text \<open>
  (C1) Insertion into a valid index never dereferences a null pointer and returns a
  valid index: cached heights exact, every node balanced, keys strictly ordered,
  no empty record list.
\<close>

theorem insert_node_invar:
  "invar t \<Longrightarrow> \<exists>t'. insert_node t k r = Some t' \<and> invar t'"
proof -
  assume inv: "invar t"
  then obtain t' where t': "insert_node t k r = Some t'" "avl t'"
    "inorder t' = ins_rec k r (inorder t)"
    by (rule insert_node_ok)
  from inv have "sorted_keys (inorder t)" "list_all (\<lambda>p. snd p \<noteq> []) (inorder t)"
    by (auto simp: invar_def bst_def no_empty_def)
  with t' have "invar t'"
    by (simp add: invar_def bst_def no_empty_def sorted_ins_rec no_empty_ins_rec)
  with t' show ?thesis by blast
qed

theorem insert_node_invar_witness:
  "invar (TreeNode ''Elena'' [1] (TreeNode ''Alexey'' [2] Null Null 1) Null 2) \<and>
   (\<exists>t'. insert_node (TreeNode ''Elena'' [1] (TreeNode ''Alexey'' [2] Null Null 1) Null 2)
            ''Anna'' 6 = Some t' \<and> invar t')"
  using insert_node_invar [of "TreeNode ''Elena'' [1] (TreeNode ''Alexey'' [2] Null Null 1) Null 2"
      "''Anna''" 6]
  by (simp add: invar_def bst_def no_empty_def)

text \<open>
  (C2) After \<open>insert(key, id)\<close> the index maps \<open>key\<close> to its former records
  followed by \<open>id\<close> (a new key gets \<open>[id]\<close>), and every other key as before.
\<close>

theorem insert_node_lookup:
  "invar t \<Longrightarrow>
   map_option lookup (insert_node t k r) = Some ((lookup t)(k := lookup t k @ [r]))"
proof -
  assume inv: "invar t"
  then obtain t' where t': "insert_node t k r = Some t'" "inorder t' = ins_rec k r (inorder t)"
    by (rule insert_node_ok)
  from inv have "sorted_keys (inorder t)" by (simp add: invar_def bst_def)
  with t' show ?thesis by (simp add: lookup_ins_rec fun_eq_iff)
qed

theorem insert_node_lookup_witness:
  "invar (TreeNode ''Anna'' [1] Null Null 1) \<and>
   map_option lookup (insert_node (TreeNode ''Anna'' [1] Null Null 1) ''Anna'' 2) =
     Some ((lookup (TreeNode ''Anna'' [1] Null Null 1))(''Anna'' := [1, 2]))"
  using insert_node_lookup [of "TreeNode ''Anna'' [1] Null Null 1" "''Anna''" 2]
  by (simp add: invar_def bst_def no_empty_def)

text \<open>
  (C3) Refinement: on a valid index, the in-order list of the result of
  \<open>insert_node\<close> is the abstract insertion \<open>ins_rec\<close> applied to the in-order
  list of the argument.
\<close>

theorem insert_node_inorder:
  "invar t \<Longrightarrow> map_option inorder (insert_node t k r) = Some (ins_rec k r (inorder t))"
proof -
  assume "invar t"
  then obtain t' where "insert_node t k r = Some t'" "inorder t' = ins_rec k r (inorder t)"
    by (rule insert_node_ok)
  then show ?thesis by simp
qed

theorem insert_node_inorder_witness:
  "invar (TreeNode ''Igor'' [4] Null Null 1) \<and>
   map_option inorder (insert_node (TreeNode ''Igor'' [4] Null Null 1) ''Dmitry'' 7) =
     Some [(''Dmitry'', [7]), (''Igor'', [4])]"
  using insert_node_inorder [of "TreeNode ''Igor'' [4] Null Null 1" "''Dmitry''" 7]
  by (simp add: invar_def bst_def no_empty_def)

text \<open>
  Insertion raises the height of a valid index by at most one level.
\<close>

theorem insert_node_height:
  "invar t \<Longrightarrow> \<exists>t'. insert_node t k r = Some t' \<and> ht t \<le> ht t' \<and> ht t' \<le> ht t + 1"
proof -
  assume "invar t"
  then obtain t' where "insert_node t k r = Some t'" "ht t' = ht t \<or> ht t' = ht t + 1"
    by (rule insert_node_ok)
  then show ?thesis by auto
qed

theorem insert_node_height_witness:
  "invar (TreeNode ''Maria'' [3] Null Null 1) \<and>
   (\<exists>t'. insert_node (TreeNode ''Maria'' [3] Null Null 1) ''Sergey'' 5 = Some t' \<and>
      ht (TreeNode ''Maria'' [3] Null Null 1) \<le> ht t' \<and>
      ht t' \<le> ht (TreeNode ''Maria'' [3] Null Null 1) + 1)"
  using insert_node_height [of "TreeNode ''Maria'' [3] Null Null 1" "''Sergey''" 5]
  by (simp add: invar_def bst_def no_empty_def)

end
