(* ===== verification/Tree_Delete.thy ===== *)
theory Tree_Delete
  imports Tree_Node
begin

text \<open>
  Removal from the AVL index: \<open>BinaryTree::deleteNode(TreeNode*, key, recordNumber)\<close>
  of \<open>src/binary_tree.cpp\<close> (lines 131--211).  \<open>deleteNode\<close> descends by key;
  at the matching node it erases every occurrence of the id (\<open>std::remove\<close> and
  \<open>erase\<close>, i.e. \<open>removeAll\<close>).  A node whose record list became empty is excised:
  with at most one child it is replaced by that child; with two children it takes
  the key and the whole record list of its in-order successor (\<open>findMin\<close> of the
  right subtree) and the code then calls \<open>deleteNode\<close> on the right subtree with
  the successor's key and its \<open>recordNumbers[0]\<close>.  \<open>delete_fixup\<close> is the
  height update and the four rotation cases chosen by the children's balance
  (lines 182--210); the unreachable \<open>if(!node)\<close> test at line 179 is not a branch of
  the model.

  The abstract operation is \<open>del_rec\<close>.  The successor step removes only the
  occurrences of the successor's first id; when the successor holds other ids its node
  stays in the right subtree, so the key then occurs twice.  The refinement to
  \<open>del_rec\<close> is therefore proved for indexes in which every node holds copies of a
  single id (\<open>single_id\<close>), and the lookup behaviour, which the duplicate does not
  disturb, for every valid index.
\<close>

text \<open>The rebalancing tail of \<open>deleteNode\<close> for the node with fields \<open>nk rs l r\<close>.\<close>

definition delete_fixup ::
  "'k \<Rightarrow> record_id list \<Rightarrow> 'k tree \<Rightarrow> 'k tree \<Rightarrow> 'k tree option" where
  "delete_fixup nk rs l r =
     (let node = mkNode nk rs l r; balance = getBalance node in
      if balance > 1 \<and> getBalance l \<ge> 0 then rightRotate node
      else if balance > 1 \<and> getBalance l < 0 then
        (case leftRotate l of
           None \<Rightarrow> None
         | Some l' \<Rightarrow> rightRotate (TreeNode nk rs l' r (getHeight node)))
      else if balance < -1 \<and> getBalance r \<le> 0 then leftRotate node
      else if balance < -1 \<and> getBalance r > 0 then
        (case rightRotate r of
           None \<Rightarrow> None
         | Some r' \<Rightarrow> leftRotate (TreeNode nk rs l r' (getHeight node)))
      else Some node)"

fun deleteNode :: "'k::linorder tree \<Rightarrow> 'k \<Rightarrow> record_id \<Rightarrow> 'k tree option" where
  "deleteNode Null k r = Some Null"
| "deleteNode (TreeNode nk rs l rt h) k r =
     (if k < nk then
        (case deleteNode l k r of None \<Rightarrow> None | Some l' \<Rightarrow> delete_fixup nk rs l' rt)
      else if k > nk then
        (case deleteNode rt k r of None \<Rightarrow> None | Some r' \<Rightarrow> delete_fixup nk rs l r')
      else
        (let rs' = removeAll r rs in
         if rs' = [] then
           (if l = Null \<or> rt = Null then Some (if l \<noteq> Null then l else rt)
            else
              (case findMin rt of
                 None \<Rightarrow> None
               | Some (sk, srs) \<Rightarrow>
                   (case srs of
                      [] \<Rightarrow> None
                    | s0 # _ \<Rightarrow>
                        (case deleteNode rt sk s0 of
                           None \<Rightarrow> None
                         | Some r' \<Rightarrow> delete_fixup sk srs l r'))))
         else Some (TreeNode nk rs' l rt h)))"

subsection \<open>The abstract operation and the lookup behaviour\<close>

text \<open>Abstract removal on the sorted association list of the index.\<close>

fun del_rec :: "'k \<Rightarrow> record_id \<Rightarrow> 'k index_list \<Rightarrow> 'k index_list" where
  "del_rec k r [] = []"
| "del_rec k r ((a, rs) # ps) =
     (if a = k then (if removeAll r rs = [] then ps else (a, removeAll r rs) # ps)
      else (a, rs) # del_rec k r ps)"

text \<open>Every node holds copies of one record id (for instance, exactly one record).\<close>

definition single_id :: "'k tree \<Rightarrow> bool" where
  "single_id t \<longleftrightarrow> list_all (\<lambda>p. removeAll (hd (snd p)) (snd p) = []) (inorder t)"

lemma single_id_TreeNode [simp]:
  "single_id (TreeNode k rs l r h) \<longleftrightarrow> single_id l \<and> removeAll (hd rs) rs = [] \<and> single_id r"
  by (simp add: single_id_def)

subsection \<open>Balance and height\<close>

lemma delete_fixup_spec:
  assumes "avl l" "avl r" "ht l \<le> ht r + 2" "ht r \<le> ht l + 2"
  shows "\<exists>t'. delete_fixup nk rs l r = Some t' \<and> avl t' \<and>
      inorder t' = inorder l @ (nk, rs) # inorder r \<and>
      ht t' \<le> max (ht l) (ht r) + 1 \<and> max (ht l) (ht r) \<le> ht t' \<and>
      (ht l \<le> ht r + 1 \<and> ht r \<le> ht l + 1 \<longrightarrow> ht t' = max (ht l) (ht r) + 1)"
proof (cases "ht l = ht r + 2")
  case True
  with assms obtain x xs a b hx where l: "l = TreeNode x xs a b hx" by (cases l) auto
  show ?thesis
  proof (cases "ht b \<le> ht a")
    case True
    with assms l \<open>ht l = ht r + 2\<close> show ?thesis
      by (auto simp: delete_fixup_def Let_def mkNode_def max_def)
  next
    case False
    with assms l obtain y ys c d hy where "b = TreeNode y ys c d hy" by (cases b) auto
    with False assms l \<open>ht l = ht r + 2\<close> show ?thesis
      by (auto simp: delete_fixup_def Let_def mkNode_def max_def)
  qed
next
  case False
  show ?thesis
  proof (cases "ht r = ht l + 2")
    case True
    with assms obtain x xs a b hx where r: "r = TreeNode x xs a b hx" by (cases r) auto
    show ?thesis
    proof (cases "ht a \<le> ht b")
      case True
      with assms r \<open>ht r = ht l + 2\<close> show ?thesis
        by (auto simp: delete_fixup_def Let_def mkNode_def max_def)
    next
      case False
      with assms r obtain y ys c d hy where "a = TreeNode y ys c d hy" by (cases a) auto
      with False assms r \<open>ht r = ht l + 2\<close> show ?thesis
        by (auto simp: delete_fixup_def Let_def mkNode_def max_def)
    qed
  next
    case False
    with \<open>ht l \<noteq> ht r + 2\<close> assms show ?thesis
      by (auto simp: delete_fixup_def Let_def mkNode_def max_def)
  qed
qed

lemma deleteNode_avl_spec:
  "avl t \<Longrightarrow> no_empty t \<Longrightarrow> \<exists>t'. deleteNode t k r = Some t' \<and> avl t' \<and> no_empty t' \<and>
     ht t' \<le> ht t \<and> ht t \<le> ht t' + 1"
proof (induction t k r rule: deleteNode.induct)
  case (1 k r)
  then show ?case by simp
next
  case (2 nk rs l rt h k r)
  consider (lt) "k < nk" | (gt) "nk < k" | (eq) "k = nk" by fastforce
  then show ?case
  proof cases
    case lt
    from "2.prems" have "avl l" "no_empty l" by auto
    with "2.IH"(1) [OF lt] obtain l' where l': "deleteNode l k r = Some l'" "avl l'"
      "no_empty l'" "ht l' \<le> ht l" "ht l \<le> ht l' + 1" by blast
    with "2.prems" delete_fixup_spec [of l' rt nk rs] obtain t' where
      "delete_fixup nk rs l' rt = Some t'" "avl t'" "inorder t' = inorder l' @ (nk, rs) # inorder rt"
      "ht t' \<le> max (ht l') (ht rt) + 1" "max (ht l') (ht rt) \<le> ht t'"
      "ht l' \<le> ht rt + 1 \<and> ht rt \<le> ht l' + 1 \<longrightarrow> ht t' = max (ht l') (ht rt) + 1"
      by auto
    with lt l' "2.prems" show ?thesis by (auto simp: no_empty_inorder_eq)
  next
    case gt
    then have nlt: "\<not> k < nk" by simp
    from "2.prems" have "avl rt" "no_empty rt" by auto
    with "2.IH"(2) [OF nlt gt] obtain r' where r': "deleteNode rt k r = Some r'" "avl r'"
      "no_empty r'" "ht r' \<le> ht rt" "ht rt \<le> ht r' + 1" by blast
    with "2.prems" delete_fixup_spec [of l r' nk rs] obtain t' where
      "delete_fixup nk rs l r' = Some t'" "avl t'" "inorder t' = inorder l @ (nk, rs) # inorder r'"
      "ht t' \<le> max (ht l) (ht r') + 1" "max (ht l) (ht r') \<le> ht t'"
      "ht l \<le> ht r' + 1 \<and> ht r' \<le> ht l + 1 \<longrightarrow> ht t' = max (ht l) (ht r') + 1"
      by auto
    note fx = this
    from nlt gt r'(1) fx(1) have "deleteNode (TreeNode nk rs l rt h) k r = Some t'" by simp
    moreover from "2.prems" r' fx(4-6) have
      "ht t' \<le> ht (TreeNode nk rs l rt h) \<and> ht (TreeNode nk rs l rt h) \<le> ht t' + 1"
      by (simp add: max_def split: if_splits)
    moreover from "2.prems" r'(3) fx(3) have "no_empty t'" by (simp add: no_empty_inorder_eq)
    ultimately show ?thesis using fx(2) by blast
  next
    case eq
    show ?thesis
    proof (cases "removeAll r rs = [] \<and> l \<noteq> Null \<and> rt \<noteq> Null")
      case False
      show ?thesis
      proof (cases "removeAll r rs = []")
        case False
        with eq "2.prems" show ?thesis by (auto simp: Let_def max_def)
      next
        case True
        with \<open>\<not> (removeAll r rs = [] \<and> l \<noteq> Null \<and> rt \<noteq> Null)\<close> have "l = Null \<or> rt = Null"
          by simp
        with True eq "2.prems" show ?thesis by (auto simp: Let_def)
      qed
    next
      case True
      obtain sk srs where fm: "findMin rt = Some (sk, srs)"
        using True findMin_inorder [of rt] by (cases "hd (inorder rt)") auto
      from fm have mem: "(sk, srs) \<in> set (inorder rt)"
        by (simp add: findMin_inorder)
      from "2.prems" have "no_empty rt" by simp
      then have "snd (sk, srs) \<noteq> []"
        using mem unfolding no_empty_def list_all_iff by blast
      then have "srs \<noteq> []" by simp
      then obtain s0 ss where srs: "srs = s0 # ss"
        by (cases srs) auto
      with True eq fm "2.IH"(3) [of "removeAll r rs" "(sk, srs)" sk srs s0 ss] "2.prems"
      obtain r' where r': "deleteNode rt sk s0 = Some r'" "avl r'"
        "no_empty r'" "ht r' \<le> ht rt" "ht rt \<le> ht r' + 1" by auto
      with "2.prems" delete_fixup_spec [of l r' sk srs] obtain t' where
        "delete_fixup sk srs l r' = Some t'" "avl t'" "inorder t' = inorder l @ (sk, srs) # inorder r'"
        "ht t' \<le> max (ht l) (ht r') + 1" "max (ht l) (ht r') \<le> ht t'"
        "ht l \<le> ht r' + 1 \<and> ht r' \<le> ht l + 1 \<longrightarrow> ht t' = max (ht l) (ht r') + 1"
        by auto
      with True eq fm srs r' "2.prems" show ?thesis by (auto simp: no_empty_inorder_eq Let_def)
    qed
  qed
qed

lemma delete_fixup_inorder:
  "delete_fixup nk rs l r = Some t' \<Longrightarrow> inorder t' = inorder l @ (nk, rs) # inorder r"
  by (auto simp: delete_fixup_def Let_def split: if_splits option.splits
      dest!: rightRotate_inorder leftRotate_inorder)

lemma deleteNode_lookup_spec:
  "bst t \<Longrightarrow> deleteNode t k r = Some t' \<Longrightarrow>
   fst ` set (inorder t') \<subseteq> fst ` set (inorder t) \<and>
   lookup t' = (lookup t)(k := removeAll r (lookup t k))"
proof (induction t k r arbitrary: t' rule: deleteNode.induct)
  case (1 k r)
  then show ?case by auto
next
  case (2 nk rs l rt h k r)
  let ?t = "TreeNode nk rs l rt h"
  from "2.prems"(1) have bl: "bst l" and br: "bst rt"
    and kl: "\<forall>p\<in>set (inorder l). fst p < nk" and kr: "\<forall>p\<in>set (inorder rt). nk < fst p"
    by auto
  have lt_t: "lookup_list (inorder l @ (nk, rs) # inorder rt) k' = (if k' < nk then lookup l k' else if k' = nk then rs else lookup rt k')"
    for k' using kl kr by (simp add: lookup_list_node less_imp_le)
  have nr: "lookup rt k' = []" if "k' \<le> nk" for k'
  proof (rule lookup_list_notin)
    show "\<forall>p\<in>set (inorder rt). fst p \<noteq> k'" using kr that by force
  qed
  have nl: "lookup l k' = []" if "nk \<le> k'" for k'
  proof (rule lookup_list_notin)
    show "\<forall>p\<in>set (inorder l). fst p \<noteq> k'" using kl that by force
  qed
  consider (lt) "k < nk" | (gt) "nk < k" | (eq) "k = nk" by fastforce
  then show ?case
  proof cases
    case lt
    with "2.prems"(2) obtain l' where l': "deleteNode l k r = Some l'"
      and fx: "delete_fixup nk rs l' rt = Some t'" by (auto split: option.splits)
    from "2.IH"(1) [OF lt bl l'] have ks: "fst ` set (inorder l') \<subseteq> fst ` set (inorder l)"
      and lk: "lookup l' = (lookup l)(k := removeAll r (lookup l k))" by auto
    from ks kl have kl': "\<forall>p\<in>set (inorder l'). fst p < nk" by fastforce
    have it: "inorder t' = inorder l' @ (nk, rs) # inorder rt" by (rule delete_fixup_inorder [OF fx])
    have "lookup t' k' = ((lookup ?t)(k := removeAll r (lookup ?t k))) k'" for k'
      using lt kl' kr lk by (simp add: it lt_t lookup_list_node less_imp_le)
    with ks it show ?thesis by auto
  next
    case gt
    then have nlt: "\<not> k < nk" by simp
    with gt "2.prems"(2) obtain r' where r': "deleteNode rt k r = Some r'"
      and fx: "delete_fixup nk rs l r' = Some t'" by (auto split: option.splits)
    from "2.IH"(2) [OF nlt gt br r'] have ks: "fst ` set (inorder r') \<subseteq> fst ` set (inorder rt)"
      and lk: "lookup r' = (lookup rt)(k := removeAll r (lookup rt k))" by auto
    from ks kr have kr': "\<forall>p\<in>set (inorder r'). nk < fst p" by fastforce
    have it: "inorder t' = inorder l @ (nk, rs) # inorder r'" by (rule delete_fixup_inorder [OF fx])
    have "lookup t' k' = ((lookup ?t)(k := removeAll r (lookup ?t k))) k'" for k'
      using gt kl kr' lk by (simp add: it lt_t lookup_list_node less_imp_le)
    with ks it show ?thesis by auto
  next
    case eq
    show ?thesis
    proof (cases "removeAll r rs = [] \<and> l \<noteq> Null \<and> rt \<noteq> Null")
      case False
      show ?thesis
      proof (cases "removeAll r rs = []")
        case False
        with eq "2.prems"(2) have t': "t' = TreeNode nk (removeAll r rs) l rt h"
          by (simp add: Let_def)
        have "lookup t' k' = ((lookup ?t)(k := removeAll r (lookup ?t k))) k'" for k'
          using eq kl kr by (simp add: t' lt_t lookup_list_node less_imp_le)
        with t' show ?thesis by auto
      next
        case True
        with \<open>\<not> (removeAll r rs = [] \<and> l \<noteq> Null \<and> rt \<noteq> Null)\<close> have "l = Null \<or> rt = Null"
          by simp
        with True eq "2.prems"(2) have t': "t' = (if l \<noteq> Null then l else rt)"
          by (auto simp: Let_def)
        have "lookup t' k' = ((lookup ?t)(k := removeAll r (lookup ?t k))) k'" for k'
          using \<open>l = Null \<or> rt = Null\<close> True eq nr [of k'] nl [of k']
          by (auto simp: t' lt_t)
        with t' \<open>l = Null \<or> rt = Null\<close> show ?thesis by auto
      qed
    next
      case True
      obtain sk srs where fm: "findMin rt = Some (sk, srs)"
        using True findMin_inorder [of rt] by (cases "hd (inorder rt)") auto
      then have hd: "hd (inorder rt) = (sk, srs)" and "rt \<noteq> Null"
        by (auto simp: findMin_inorder)
      then obtain rest where irt: "inorder rt = (sk, srs) # rest"
        by (cases "inorder rt") auto
      from "2.prems"(2) True eq fm obtain s0 ss r' where srs: "srs = s0 # ss"
        and r': "deleteNode rt sk s0 = Some r'" and fx: "delete_fixup sk srs l r' = Some t'"
        by (auto simp: Let_def split: list.splits option.splits)
      from "2.IH"(3) [of "removeAll r rs" "(sk, srs)" sk srs s0 ss r'] True eq fm srs br r'
      have ks: "fst ` set (inorder r') \<subseteq> fst ` set (inorder rt)"
        and lk: "lookup r' = (lookup rt)(sk := removeAll s0 (lookup rt sk))"
        by (auto simp: Let_def)
      from br irt have rest: "\<forall>p\<in>set rest. sk < fst p" by (simp add: bst_def)
      from kr irt have nsk: "nk < sk" by simp
      from ks irt rest have kr': "\<forall>p\<in>set (inorder r'). sk \<le> fst p" by fastforce
      from kl nsk have kl': "\<forall>p\<in>set (inorder l). fst p < sk" by fastforce
      have it: "inorder t' = inorder l @ (sk, srs) # inorder r'" by (rule delete_fixup_inorder [OF fx])
      have lrt: "lookup rt k' = (if k' = sk then srs else lookup_list rest k')" for k'
        by (simp add: irt)
      have nrest: "lookup_list rest k' = []" if "k' \<le> sk" for k'
      proof (rule lookup_list_notin)
        show "\<forall>p\<in>set rest. fst p \<noteq> k'" using rest that by force
      qed
      have "lookup t' k' = ((lookup ?t)(k := removeAll r (lookup ?t k))) k'" for k'
        using eq nsk kl' kr' lk True nl [of k'] nrest [of k']
        by (auto simp: it lt_t lookup_list_node lrt)
      with ks it irt show ?thesis by auto
    qed
  qed
qed

lemma single_id_Null [simp]: "single_id Null"
  by (simp add: single_id_def)

lemma del_rec_notin: "k \<notin> fst ` set ps \<Longrightarrow> del_rec k r ps = ps"
  by (induction ps rule: del_rec.induct) auto

lemma del_rec_append:
  "k \<notin> fst ` set xs \<Longrightarrow> del_rec k r (xs @ ys) = xs @ del_rec k r ys"
  by (induction xs) auto

lemma del_rec_append2:
  "k \<notin> fst ` set ys \<Longrightarrow> del_rec k r (xs @ ys) = del_rec k r xs @ ys"
  by (induction xs rule: del_rec.induct) (auto simp: del_rec_notin)

lemma set_del_rec: "fst ` set (del_rec k r ps) \<subseteq> fst ` set ps"
  by (induction ps rule: del_rec.induct) auto

lemma sorted_del_rec: "sorted_keys ps \<Longrightarrow> sorted_keys (del_rec k r ps)"
proof (induction ps rule: del_rec.induct)
  case (2 k r a rs ps)
  have "a < fst y" if "y \<in> set (del_rec k r ps)" for y
  proof -
    from that set_del_rec [of k r ps] obtain p where "p \<in> set ps" "fst p = fst y" by force
    with "2.prems" show ?thesis by auto
  qed
  with 2 show ?case by auto
qed simp

lemma no_empty_del_rec:
  "list_all (\<lambda>p. snd p \<noteq> []) ps \<Longrightarrow> list_all (\<lambda>p. snd p \<noteq> []) (del_rec k r ps)"
  by (induction ps rule: del_rec.induct) auto

lemma single_id_del_rec:
  "list_all (\<lambda>p. removeAll (hd (snd p)) (snd p) = []) ps \<Longrightarrow>
   list_all (\<lambda>p. removeAll (hd (snd p)) (snd p) = []) (del_rec k r ps)"
proof (induction ps rule: del_rec.induct)
  case (2 k r a rs ps)
  have "removeAll (hd (removeAll r rs)) (removeAll r rs) = []" if h: "removeAll (hd rs) rs = []"
  proof (cases "r \<in> set rs")
    case True
    from h have "\<forall>x\<in>set rs. x = hd rs" by (auto simp: removeAll_filter_not_eq filter_empty_conv)
    with True h show ?thesis by simp
  next
    case False
    with h show ?thesis by (simp add: removeAll_id)
  qed
  with 2 show ?case by auto
qed simp

lemma deleteNode_inorder_spec:
  "bst t \<Longrightarrow> no_empty t \<Longrightarrow> single_id t \<Longrightarrow> deleteNode t k r = Some t' \<Longrightarrow>
   inorder t' = del_rec k r (inorder t)"
proof (induction t k r arbitrary: t' rule: deleteNode.induct)
  case (1 k r)
  then show ?case by auto
next
  case (2 nk rs l rt h k r)
  from "2.prems"(1) have kl: "nk \<notin> fst ` set (inorder l)" and kr: "nk \<notin> fst ` set (inorder rt)"
    by fastforce+
  consider (lt) "k < nk" | (gt) "nk < k" | (eq) "k = nk" by fastforce
  then show ?case
  proof cases
    case lt
    with "2.prems"(4) obtain l' where l': "deleteNode l k r = Some l'"
      and fx: "delete_fixup nk rs l' rt = Some t'" by (auto split: option.splits)
    from "2.prems" lt have "k \<notin> fst ` set (inorder rt)" by fastforce
    with lt "2.IH"(1) [OF lt _ _ _ l'] "2.prems"(1-3) delete_fixup_inorder [OF fx] show ?thesis
      by (simp add: del_rec_append2)
  next
    case gt
    then have nlt: "\<not> k < nk" by simp
    with gt "2.prems"(4) obtain r' where r': "deleteNode rt k r = Some r'"
      and fx: "delete_fixup nk rs l r' = Some t'" by (auto split: option.splits)
    from "2.prems" gt have "k \<notin> fst ` set (inorder l)" by fastforce
    with gt "2.IH"(2) [OF nlt gt _ _ _ r'] "2.prems"(1-3) delete_fixup_inorder [OF fx] show ?thesis
      by (auto simp: del_rec_append)
  next
    case eq
    show ?thesis
    proof (cases "removeAll r rs = [] \<and> l \<noteq> Null \<and> rt \<noteq> Null")
      case False
      with eq "2.prems"(4) kl show ?thesis
        by (cases "removeAll r rs = []") (auto simp: Let_def del_rec_append split: if_splits)
    next
      case True
      obtain sk srs where fm: "findMin rt = Some (sk, srs)"
        using True findMin_inorder [of rt] by (cases "hd (inorder rt)") auto
      then have "hd (inorder rt) = (sk, srs)" and "rt \<noteq> Null"
        by (auto simp: findMin_inorder)
      then obtain rest where irt: "inorder rt = (sk, srs) # rest"
        by (cases "inorder rt") auto
      from "2.prems"(4) True eq fm obtain s0 ss r' where srs: "srs = s0 # ss"
        and r': "deleteNode rt sk s0 = Some r'" and fx: "delete_fixup sk srs l r' = Some t'"
        by (auto simp: Let_def split: list.splits option.splits)
      from "2.prems" have "bst rt" "no_empty rt" "single_id rt" by auto
      with "2.IH"(3) [of "removeAll r rs" "(sk, srs)" sk srs s0 ss r'] True eq fm srs r'
      have "inorder r' = del_rec sk s0 (inorder rt)" by (auto simp: Let_def)
      moreover from \<open>single_id rt\<close> irt srs have "removeAll s0 srs = []"
        by (simp add: single_id_def)
      ultimately have "inorder r' = rest" by (simp add: irt)
      with delete_fixup_inorder [OF fx] irt True eq kl show ?thesis
        by (simp add: del_rec_append)
    qed
  qed
qed

lemma delete_fixup_balanced:
  "avl (TreeNode nk rs l r h) \<Longrightarrow> delete_fixup nk rs l r = Some (TreeNode nk rs l r h)"
  by (auto simp: delete_fixup_def Let_def mkNode_def)

lemma deleteNode_absent:
  "avl t \<Longrightarrow> k \<notin> fst ` set (inorder t) \<Longrightarrow> deleteNode t k r = Some t"
proof (induction t)
  case (TreeNode nk rs l rt h)
  from TreeNode.prems have "k \<noteq> nk" "avl l" "avl rt"
    "k \<notin> fst ` set (inorder l)" "k \<notin> fst ` set (inorder rt)" by auto
  with TreeNode.IH have "deleteNode l k r = Some l" "deleteNode rt k r = Some rt" by auto
  with \<open>k \<noteq> nk\<close> delete_fixup_balanced [OF TreeNode.prems(1)] show ?case by auto
qed simp

subsection \<open>Properties of removal\<close>

text \<open>
  (C5) Removal from a balanced index whose nodes all hold records never dereferences a
  null pointer nor reads \<open>recordNumbers[0]\<close> of an empty vector, and returns a
  balanced index with exact cached heights and no empty record list.  This needs
  neither the search order nor any condition on the record lists.
\<close>

theorem deleteNode_avl:
  "avl t \<Longrightarrow> no_empty t \<Longrightarrow> \<exists>t'. deleteNode t k r = Some t' \<and> avl t' \<and> no_empty t'"
  using deleteNode_avl_spec [of t k r] by blast

theorem deleteNode_avl_witness:
  "avl (TreeNode ''Elena'' [1] (TreeNode ''Alexey'' [2] Null Null 1) (TreeNode ''Maria'' [3] Null Null 1) 2) \<and> no_empty (TreeNode ''Elena'' [1] (TreeNode ''Alexey'' [2] Null Null 1) (TreeNode ''Maria'' [3] Null Null 1) 2) \<and>
   (\<exists>t'. deleteNode (TreeNode ''Elena'' [1] (TreeNode ''Alexey'' [2] Null Null 1) (TreeNode ''Maria'' [3] Null Null 1) 2) ''Elena'' 1 = Some t' \<and> avl t' \<and> no_empty t')"
proof -
  have h: "avl (TreeNode ''Elena'' [1] (TreeNode ''Alexey'' [2] Null Null 1) (TreeNode ''Maria'' [3] Null Null 1) 2)" "no_empty (TreeNode ''Elena'' [1] (TreeNode ''Alexey'' [2] Null Null 1) (TreeNode ''Maria'' [3] Null Null 1) 2)" by simp_all
  show ?thesis using h deleteNode_avl [OF h, of "''Elena''" 1] by blast
qed



text \<open>
  (C7) On a valid index, \<open>remove(key, id)\<close> deletes every occurrence of \<open>id\<close> from the
  records of \<open>key\<close> (\<open>std::remove\<close> followed by \<open>erase\<close>) and leaves every other key's
  records as they were.  This holds also when the successor promoted by the two-child
  case keeps some of its records, since the copy at the promoted node hides them.
\<close>

theorem deleteNode_lookup:
  "invar t \<Longrightarrow>
   map_option lookup (deleteNode t k r) = Some ((lookup t)(k := removeAll r (lookup t k)))"
proof -
  assume inv: "invar t"
  then obtain t' where t': "deleteNode t k r = Some t'"
    using deleteNode_avl_spec [of t k r] by (auto simp: invar_def)
  with inv deleteNode_lookup_spec [of t k r t'] show ?thesis by (simp add: invar_def)
qed

theorem deleteNode_lookup_witness:
  "invar (TreeNode ''Elena'' [1] (TreeNode ''Alexey'' [2] Null Null 1) (TreeNode ''Maria'' [3] Null Null 1) 2) \<and>
   map_option lookup (deleteNode (TreeNode ''Elena'' [1] (TreeNode ''Alexey'' [2] Null Null 1) (TreeNode ''Maria'' [3] Null Null 1) 2) ''Elena'' 1) =
     Some ((lookup (TreeNode ''Elena'' [1] (TreeNode ''Alexey'' [2] Null Null 1) (TreeNode ''Maria'' [3] Null Null 1) 2))(''Elena'' := []))"
proof -
  have h: "invar (TreeNode ''Elena'' [1] (TreeNode ''Alexey'' [2] Null Null 1) (TreeNode ''Maria'' [3] Null Null 1) 2)" by (simp add: invar_def bst_def)
  show ?thesis using h deleteNode_lookup [OF h, of "''Elena''" 1] by simp
qed

text \<open>
  (C8) Refinement of removal, under the condition that makes the successor step of the
  two-child case sound: every node holds copies of one record id only.  Then the
  in-order list of the result is the abstract deletion \<open>del_rec\<close> of the argument's,
  and the result is again a valid index with that property.
\<close>

theorem deleteNode_single_id:
  "invar t \<Longrightarrow> single_id t \<Longrightarrow>
   \<exists>t'. deleteNode t k r = Some t' \<and> inorder t' = del_rec k r (inorder t) \<and>
        invar t' \<and> single_id t'"
proof -
  assume inv: "invar t" and si: "single_id t"
  then obtain t' where t': "deleteNode t k r = Some t'" "avl t'" "no_empty t'"
    using deleteNode_avl_spec [of t k r] by (auto simp: invar_def)
  from inv si t'(1) have io: "inorder t' = del_rec k r (inorder t)"
    by (intro deleteNode_inorder_spec) (auto simp: invar_def)
  from inv have "sorted_keys (inorder t)" by (simp add: invar_def bst_def)
  with io have "bst t'" by (simp add: bst_def sorted_del_rec)
  moreover from si io have "single_id t'" by (simp add: single_id_def single_id_del_rec)
  ultimately show ?thesis using t' io by (simp add: invar_def)
qed

theorem deleteNode_single_id_witness:
  "invar (TreeNode ''Elena'' [1] (TreeNode ''Alexey'' [2] Null Null 1) (TreeNode ''Maria'' [3] Null Null 1) 2) \<and> single_id (TreeNode ''Elena'' [1] (TreeNode ''Alexey'' [2] Null Null 1) (TreeNode ''Maria'' [3] Null Null 1) 2) \<and>
   (\<exists>t'. deleteNode (TreeNode ''Elena'' [1] (TreeNode ''Alexey'' [2] Null Null 1) (TreeNode ''Maria'' [3] Null Null 1) 2) ''Elena'' 1 = Some t' \<and>
      inorder t' = [(''Alexey'', [2]), (''Maria'', [3])] \<and> invar t' \<and> single_id t')"
proof -
  have h: "invar (TreeNode ''Elena'' [1] (TreeNode ''Alexey'' [2] Null Null 1) (TreeNode ''Maria'' [3] Null Null 1) 2)" "single_id (TreeNode ''Elena'' [1] (TreeNode ''Alexey'' [2] Null Null 1) (TreeNode ''Maria'' [3] Null Null 1) 2)" by (simp_all add: invar_def bst_def)
  show ?thesis using h deleteNode_single_id [OF h, of "''Elena''" 1] by simp
qed

text \<open>
  Removing an id under a key the index does not hold is a no-op: the tree comes
  back structurally identical, every cached height and every rotation decision
  unchanged.
\<close>

theorem deleteNode_absent_key:
  "invar t \<Longrightarrow> lookup t k = [] \<Longrightarrow> deleteNode t k r = Some t"
proof -
  assume inv: "invar t" and none: "lookup t k = []"
  from inv have ne: "list_all (\<lambda>p. snd p \<noteq> []) (inorder t)" and a: "avl t"
    by (simp_all add: invar_def no_empty_def)
  have "k \<notin> fst ` set (inorder t)"
  proof
    assume "k \<in> fst ` set (inorder t)"
    from lookup_list_present [OF ne this] none show False by simp
  qed
  from deleteNode_absent [OF a this] show ?thesis .
qed

theorem deleteNode_absent_key_witness:
  "invar (TreeNode ''Elena'' [1] (TreeNode ''Alexey'' [2] Null Null 1) (TreeNode ''Maria'' [3] Null Null 1) 2) \<and> lookup (TreeNode ''Elena'' [1] (TreeNode ''Alexey'' [2] Null Null 1) (TreeNode ''Maria'' [3] Null Null 1) 2) ''Petr'' = [] \<and> deleteNode (TreeNode ''Elena'' [1] (TreeNode ''Alexey'' [2] Null Null 1) (TreeNode ''Maria'' [3] Null Null 1) 2) ''Petr'' 8 = Some (TreeNode ''Elena'' [1] (TreeNode ''Alexey'' [2] Null Null 1) (TreeNode ''Maria'' [3] Null Null 1) 2)"
proof -
  have h1: "invar (TreeNode ''Elena'' [1] (TreeNode ''Alexey'' [2] Null Null 1) (TreeNode ''Maria'' [3] Null Null 1) 2)" by (simp add: invar_def bst_def)
  have h2: "lookup (TreeNode ''Elena'' [1] (TreeNode ''Alexey'' [2] Null Null 1) (TreeNode ''Maria'' [3] Null Null 1) 2) ''Petr'' = []" by simp
  from h1 h2 deleteNode_absent_key [OF h1 h2] show ?thesis by (intro conjI)
qed

end
