(* ===== verification/Contact.thy ===== *)
theory Contact
  imports Prelude
begin

text \<open>
  The record store of the contact book (\<open>src/contact.h\<close>, \<open>src/contact.cpp\<close>): the
  \<open>Contact\<close> struct, the \<open>Index\<close> entry of the sorted index arrays, and the input
  validators.  The contact's \<open>id\<close> field is \<open>contact_id\<close> here, since \<open>id\<close> is the
  identity function of HOL.
\<close>

record contact =
  contact_id :: int
  name :: string
  phoneNumber :: string
  city :: string

record index_entry =
  key :: string
  recordNumber :: int

text \<open>\<open>validateName\<close>, \<open>validateCity\<close>: the string is not empty.\<close>

definition validateName :: "string \<Rightarrow> bool" where
  "validateName n \<longleftrightarrow> n \<noteq> []"

definition validateCity :: "string \<Rightarrow> bool" where
  "validateCity c \<longleftrightarrow> c \<noteq> []"

text \<open>
  \<open>validatePhoneNumber\<close>: between 7 and 15 characters, each accepted by
  \<open>std::isdigit\<close> (in the C locale, the ASCII digits).
\<close>

definition is_digit :: "char \<Rightarrow> bool" where
  "is_digit c \<longleftrightarrow> CHR ''0'' \<le> c \<and> c \<le> CHR ''9''"

definition validatePhoneNumber :: "string \<Rightarrow> bool" where
  "validatePhoneNumber p \<longleftrightarrow>
     \<not> (length p < 7 \<or> length p > 15) \<and> list_all is_digit p"

text \<open>
  A small contact vector used to evaluate the properties at a concrete input: two
  contacts share the name \<open>Bob\<close> and two share the city \<open>Oslo\<close>, so searches return more
  than one id; the ids are \<open>1..4\<close>, as \<open>inputContacts\<close> assigns them.
\<close>

definition sampleContacts :: "contact list" where
  "sampleContacts = [
     \<lparr>contact_id = 1, name = ''Bob'', phoneNumber = ''5550001'', city = ''Oslo''\<rparr>,
     \<lparr>contact_id = 2, name = ''Al'', phoneNumber = ''5550002'', city = ''Rome''\<rparr>,
     \<lparr>contact_id = 3, name = ''Bob'', phoneNumber = ''5550003'', city = ''Bern''\<rparr>,
     \<lparr>contact_id = 4, name = ''Cy'', phoneNumber = ''5550004'', city = ''Oslo''\<rparr>]"

end
