(* ===== verification/Binary_Tree.thy ===== *)
theory Binary_Tree
  imports Tree_Insert Tree_Delete Contact
begin

text \<open>
  The public interface of the index, class \<open>BinaryTree\<close> of \<open>src/binary_tree.h\<close> and
  \<open>src/binary_tree.cpp\<close>: the object owns the root pointer (\<open>root\<close>); the public
  \<open>insert\<close>, \<open>remove\<close>, \<open>search\<close> and \<open>inOrder\<close> call the private recursive functions
  on it.  Keys are strings.  \<open>inOrderTraversal\<close> prints, for each id of each node, the
  contact \<open>contacts[id - 1]\<close> when that index is in range; the model returns the list of
  printed contacts.  \<open>insertContacts\<close> is the loop of \<open>src/main.cpp\<close> that builds the
  index from the contact vector at start-up and after every edit or deletion.
\<close>

record binary_tree =
  root :: "key tree"

text \<open>\<open>BinaryTree()\<close>: the empty tree.\<close>

definition BinaryTree :: binary_tree where
  "BinaryTree = \<lparr>root = Null\<rparr>"

text \<open>
  The move constructor and the move assignment, on the pair of objects they touch: the
  new (or assigned) object and the moved-from \<open>other\<close>, whose \<open>unique_ptr\<close> is left
  null.  Whether \<open>this == &other\<close> is an address comparison, so the assignment takes
  it as the argument \<open>same\<close>; the tree \<open>this\<close> held before is freed, which the model
  does not observe.
\<close>

definition bt_move :: "binary_tree \<Rightarrow> binary_tree \<times> binary_tree" where
  "bt_move other = (\<lparr>root = root other\<rparr>, other\<lparr>root := Null\<rparr>)"

definition bt_moveAssign :: "bool \<Rightarrow> binary_tree \<Rightarrow> binary_tree \<Rightarrow> binary_tree \<times> binary_tree" where
  "bt_moveAssign same this other =
     (if \<not> same then (this\<lparr>root := root other\<rparr>, other\<lparr>root := Null\<rparr>) else (this, other))"

definition bt_insert :: "binary_tree \<Rightarrow> key \<Rightarrow> record_id \<Rightarrow> binary_tree option" where
  "bt_insert t k r = map_option (\<lambda>n. t\<lparr>root := n\<rparr>) (insert_node (root t) k r)"

definition bt_remove :: "binary_tree \<Rightarrow> key \<Rightarrow> record_id \<Rightarrow> binary_tree option" where
  "bt_remove t k r = map_option (\<lambda>n. t\<lparr>root := n\<rparr>) (deleteNode (root t) k r)"

definition bt_search :: "binary_tree \<Rightarrow> key \<Rightarrow> record_id list" where
  "bt_search t k = (case search_node (root t) k of Null \<Rightarrow> [] | TreeNode _ rs _ _ _ \<Rightarrow> rs)"

text \<open>The body of the loop over \<open>recordNumbers\<close> in \<open>inOrderTraversal\<close> (lines 250--259).\<close>

definition resolve :: "contact list \<Rightarrow> record_id \<Rightarrow> contact list" where
  "resolve cs i = (if i - 1 \<ge> 0 \<and> i - 1 < int (length cs) then [cs ! nat (i - 1)] else [])"

fun inOrderTraversal :: "'k tree \<Rightarrow> contact list \<Rightarrow> bool \<Rightarrow> contact list" where
  "inOrderTraversal Null cs asc = []"
| "inOrderTraversal (TreeNode k rs l r h) cs asc =
     (if asc then inOrderTraversal l cs asc else inOrderTraversal r cs asc) @
     concat (map (resolve cs) rs) @
     (if asc then inOrderTraversal r cs asc else inOrderTraversal l cs asc)"

definition bt_inOrder :: "binary_tree \<Rightarrow> contact list \<Rightarrow> bool \<Rightarrow> contact list" where
  "bt_inOrder t cs asc = inOrderTraversal (root t) cs asc"

text \<open>\<open>for (const auto& contact : contacts) tree.insert(contact.name, contact.id);\<close>\<close>

fun insertContacts :: "binary_tree \<Rightarrow> contact list \<Rightarrow> binary_tree option" where
  "insertContacts t [] = Some t"
| "insertContacts t (c # cs) =
     (case bt_insert t (name c) (contact_id c) of None \<Rightarrow> None | Some t' \<Rightarrow> insertContacts t' cs)"

text \<open>
  A sequence of calls of the public \<open>insert\<close> and \<open>remove\<close>, as the tests of
  \<open>src/test.cpp\<close> make them; a call that would dereference null stops the run.
\<close>

datatype tree_op = Ins key record_id | Rem key record_id

fun run_ops :: "binary_tree \<Rightarrow> tree_op list \<Rightarrow> binary_tree option" where
  "run_ops t [] = Some t"
| "run_ops t (Ins k r # ops) = (case bt_insert t k r of None \<Rightarrow> None | Some t' \<Rightarrow> run_ops t' ops)"
| "run_ops t (Rem k r # ops) = (case bt_remove t k r of None \<Rightarrow> None | Some t' \<Rightarrow> run_ops t' ops)"

text \<open>
  The seven contacts of \<open>testAVLInsertion\<close> and \<open>testAVLDeletion\<close> in
  \<open>src/test.cpp\<close>, with the Cyrillic names transliterated as in the specification.
\<close>

definition testContacts :: "contact list" where
  "testContacts = [
     \<lparr>contact_id = 1, name = ''Elena'', phoneNumber = ''1111111111'', city = ''Moscow''\<rparr>,
     \<lparr>contact_id = 2, name = ''Alexey'', phoneNumber = ''2222222222'', city = ''Saint Petersburg''\<rparr>,
     \<lparr>contact_id = 3, name = ''Maria'', phoneNumber = ''3333333333'', city = ''Novosibirsk''\<rparr>,
     \<lparr>contact_id = 4, name = ''Igor'', phoneNumber = ''4444444444'', city = ''Yekaterinburg''\<rparr>,
     \<lparr>contact_id = 5, name = ''Sergey'', phoneNumber = ''5555555555'', city = ''Nizhny Novgorod''\<rparr>,
     \<lparr>contact_id = 6, name = ''Anna'', phoneNumber = ''6666666666'', city = ''Kazan''\<rparr>,
     \<lparr>contact_id = 7, name = ''Dmitry'', phoneNumber = ''7777777777'', city = ''Chelyabinsk''\<rparr>]"

subsection \<open>Moves\<close>

text \<open>
  Between distinct objects a move hands the whole index over and leaves the source
  empty, so \<open>tree = BinaryTree()\<close> in \<open>main\<close> is a reset to the empty tree.
\<close>

lemma bt_move_transfers:
  "bt_move other = (other, other\<lparr>root := Null\<rparr>) \<and>
   bt_moveAssign False this other = (other, other\<lparr>root := Null\<rparr>) \<and>
   bt_moveAssign True this this = (this, this)"
  by (cases other) (simp add: bt_move_def bt_moveAssign_def)

lemma bt_moveAssign_distinct [simp]: "bt_moveAssign False this other = (other, other\<lparr>root := Null\<rparr>)"
  using bt_move_transfers by blast

subsection \<open>Search\<close>

lemma search_node_lookup:
  "bst t \<Longrightarrow> (case search_node t k of Null \<Rightarrow> [] | TreeNode _ rs _ _ _ \<Rightarrow> rs) = lookup t k"
proof (induction t)
  case (TreeNode nk rs l r h)
  then have "lookup (TreeNode nk rs l r h) k =
      (if k < nk then lookup l k else if k = nk then rs else lookup r k)"
    by (simp add: lookup_list_node less_imp_le)
  with TreeNode show ?case by auto
qed simp

lemma insertContacts_spec:
  "invar (root t) \<Longrightarrow> \<exists>t'. insertContacts t cs = Some t' \<and> invar (root t') \<and>
     (\<forall>k. lookup (root t') k = lookup (root t) k @ map contact_id (filter (\<lambda>c. name c = k) cs))"
proof (induction cs arbitrary: t)
  case (Cons c cs)
  obtain n where n: "insert_node (root t) (name c) (contact_id c) = Some n" "invar n"
    "lookup n = (lookup (root t))(name c := lookup (root t) (name c) @ [contact_id c])"
    using insert_node_valid [OF Cons.prems] by blast
  let ?t1 = "t\<lparr>root := n\<rparr>"
  from n have "bt_insert t (name c) (contact_id c) = Some ?t1" by (simp add: bt_insert_def)
  moreover from Cons.IH [of ?t1] n obtain t' where "insertContacts ?t1 cs = Some t'"
    "invar (root t')"
    "\<forall>k. lookup (root t') k = lookup n k @ map contact_id (filter (\<lambda>c. name c = k) cs)"
    by auto
  ultimately show ?case using n by auto
qed simp

lemma inorder_traversal_concat:
  "inOrderTraversal t cs asc =
     concat (map (\<lambda>p. concat (map (resolve cs) (snd p))) (if asc then inorder t else rev (inorder t)))"
  by (induction t) auto

subsection \<open>Properties of the public interface\<close>

text \<open>
  (C9) \<open>search(key)\<close> on a search-ordered tree returns exactly the records the index
  maps \<open>key\<close> to, and the empty vector for an absent key.
\<close>

theorem bt_search_correct:
  "bst (root t) \<Longrightarrow> bt_search t k = lookup (root t) k"
  by (simp add: bt_search_def search_node_lookup)

theorem bt_search_correct_witness:
  "bst (root \<lparr>root = TreeNode ''Igor'' [4] Null (TreeNode ''Maria'' [3] Null Null 1) 2\<rparr>) \<and>
   bt_search \<lparr>root = TreeNode ''Igor'' [4] Null (TreeNode ''Maria'' [3] Null Null 1) 2\<rparr> ''Maria'' = [3]"
proof -
  have h: "bst (root \<lparr>root = TreeNode ''Igor'' [4] Null (TreeNode ''Maria'' [3] Null Null 1) 2\<rparr>)"
    by simp
  from h bt_search_correct [OF h, of "''Maria''"] show ?thesis by simp
qed

text \<open>
  (C10) The start-up loop of \<open>main\<close> (and its repetition after every edit or deletion)
  never fails and builds a valid index in which each name maps to the ids of the
  contacts with that name, in the order of the contact vector.
\<close>

theorem insertContacts_correct:
  "\<exists>t. insertContacts BinaryTree cs = Some t \<and> invar (root t) \<and>
      (\<forall>k. bt_search t k = map contact_id (filter (\<lambda>c. name c = k) cs))"
proof -
  have "invar (root BinaryTree)" by (simp add: BinaryTree_def invar_def)
  from insertContacts_spec [OF this, of cs] obtain t where t: "insertContacts BinaryTree cs = Some t"
    "invar (root t)"
    "\<forall>k. lookup (root t) k = lookup (root BinaryTree) k @ map contact_id (filter (\<lambda>c. name c = k) cs)"
    by blast
  from t(2) have "bst (root t)" by (simp add: invar_def)
  with t show ?thesis by (simp add: bt_search_def search_node_lookup BinaryTree_def)
qed

text \<open>
  (C11) \<open>inOrder(contacts, ascending)\<close> prints, node by node in key order (ascending)
  or in reverse key order (descending), the contacts of the node's ids in insertion
  order; ids outside \<open>1..contacts.size()\<close> are skipped.
\<close>

theorem bt_inOrder_order:
  "bt_inOrder t cs asc =
     concat (map (\<lambda>p. concat (map (resolve cs) (snd p)))
       (if asc then inorder (root t) else rev (inorder (root t))))"
  by (simp add: bt_inOrder_def inorder_traversal_concat)

subsection \<open>Scenarios of the specification and the tests\<close>

lemmas tree_eval_simps = BinaryTree_def bt_insert_def bt_remove_def bt_search_def
  insert_fixup_def delete_fixup_def Let_def mkNode_def newNode_def

text \<open>
  Inserting the seven test contacts in order gives a valid index in which
  \<open>search("Maria") = [3]\<close>, \<open>search("Igor") = [4]\<close>, \<open>search("Petr") = []\<close>, and
  whose height is 3, within the bound 4 the specification requires.
\<close>

theorem scenario_insert_search:
  "\<exists>t. insertContacts BinaryTree testContacts = Some t \<and> invar (root t) \<and>
     bt_search t ''Maria'' = [3] \<and> bt_search t ''Igor'' = [4] \<and> bt_search t ''Petr'' = [] \<and>
     ht (root t) \<le> 3"
  by (simp add: testContacts_def tree_eval_simps invar_def bst_def)

text \<open>
  From that index, \<open>remove("Maria", 3)\<close>, \<open>remove("Petr", 8)\<close> and
  \<open>remove("Elena", 1)\<close> (the last one with two children, through the successor step)
  leave a valid index without Maria and Elena whose ascending key sequence is the other
  five names in order.
\<close>

theorem scenario_remove:
  "\<exists>t. Option.bind (insertContacts BinaryTree testContacts)
         (\<lambda>t. run_ops t [Rem ''Maria'' 3, Rem ''Petr'' 8, Rem ''Elena'' 1]) = Some t \<and>
     bt_search t ''Maria'' = [] \<and> bt_search t ''Elena'' = [] \<and> invar (root t) \<and>
     map fst (inorder (root t)) = [''Alexey'', ''Anna'', ''Dmitry'', ''Igor'', ''Sergey'']"
  by (simp add: testContacts_def tree_eval_simps invar_def bst_def)

text \<open>
  One key, several records: inserting ("Anna", 1) and ("Anna", 2) gives
  \<open>search("Anna") = [1, 2]\<close>; removing ("Anna", 1) gives \<open>[2]\<close>; removing
  ("Anna", 2) gives \<open>[]\<close> and the key is gone from the tree.
\<close>

theorem scenario_multi_value:
  "\<exists>t1 t2 t3. run_ops BinaryTree [Ins ''Anna'' 1, Ins ''Anna'' 2] = Some t1 \<and>
     bt_search t1 ''Anna'' = [1, 2] \<and>
     bt_remove t1 ''Anna'' 1 = Some t2 \<and> bt_search t2 ''Anna'' = [2] \<and>
     bt_remove t2 ''Anna'' 2 = Some t3 \<and> bt_search t3 ''Anna'' = [] \<and>
     ''Anna'' \<notin> fst ` set (inorder (root t3))"
  by (simp add: tree_eval_simps)



end
