(* ===== verification/Index_Array.thy ===== *)
theory Index_Array
  imports Contact
begin

text \<open>
  The sorted index arrays of the contact book (\<open>IndexArray\<close> in \<open>src/contact.h\<close>,
  \<open>buildIndices\<close>, \<open>sortIndices\<close>, \<open>printSortedByName\<close>, \<open>printSortedByCity\<close> and the two
  binary searches in \<open>src/contact.cpp\<close>).
\<close>

record index_array =
  nameIndexAsc :: "index_entry list"
  nameIndexDesc :: "index_entry list"
  cityIndexAsc :: "index_entry list"
  cityIndexDesc :: "index_entry list"

text \<open>A default-constructed \<open>IndexArray\<close> (\<open>IndexArray indices;\<close> in \<open>main\<close>): four empty vectors.\<close>

definition IndexArray :: index_array where
  "IndexArray = \<lparr>nameIndexAsc = [], nameIndexDesc = [], cityIndexAsc = [], cityIndexDesc = []\<rparr>"

text \<open>
  \<open>IndexArray::buildIndices\<close>: the four arrays are cleared, then the loop body
  (\<open>buildStep\<close>) appends each contact's name entry to both name arrays and, after
  overwriting the entry's key with the city, its city entry to both city arrays.
\<close>

definition buildStep :: "contact \<Rightarrow> index_array \<Rightarrow> index_array" where
  "buildStep c ia =
     (let idx = \<lparr>key = name c, recordNumber = contact_id c\<rparr>;
          ia = ia\<lparr>nameIndexAsc := nameIndexAsc ia @ [idx],
                  nameIndexDesc := nameIndexDesc ia @ [idx]\<rparr>;
          idx = idx\<lparr>key := city c\<rparr>
      in ia\<lparr>cityIndexAsc := cityIndexAsc ia @ [idx],
            cityIndexDesc := cityIndexDesc ia @ [idx]\<rparr>)"

definition buildIndices :: "contact list \<Rightarrow> index_array \<Rightarrow> index_array" where
  "buildIndices cs ia =
     fold buildStep cs
       (ia\<lparr>nameIndexAsc := [], nameIndexDesc := [], cityIndexAsc := [], cityIndexDesc := []\<rparr>)"

text \<open>
  \<open>std::sort\<close> with a comparator.  The standard only promises a permutation that is
  sorted for the comparator, the order of equivalent elements is unspecified.  The model
  computes one admissible result, an insertion sort that puts each element before the
  first element it compares less than; the properties below are proved for every array
  that is a sorted permutation (\<open>index_ok\<close>), so they hold for any outcome of
  \<open>std::sort\<close>.
\<close>

fun sort_insert :: "('a \<Rightarrow> 'a \<Rightarrow> bool) \<Rightarrow> 'a \<Rightarrow> 'a list \<Rightarrow> 'a list" where
  "sort_insert lt x [] = [x]"
| "sort_insert lt x (y # ys) = (if lt x y then x # y # ys else y # sort_insert lt x ys)"

definition std_sort :: "('a \<Rightarrow> 'a \<Rightarrow> bool) \<Rightarrow> 'a list \<Rightarrow> 'a list" where
  "std_sort lt xs = foldr (sort_insert lt) xs []"

text \<open>\<open>IndexArray::sortIndices\<close>: ascending arrays with \<open><\<close> on keys, descending ones with \<open>>\<close>.\<close>

definition sortIndices :: "index_array \<Rightarrow> index_array" where
  "sortIndices ia =
     ia\<lparr>nameIndexAsc := std_sort (\<lambda>a b. key a < key b) (nameIndexAsc ia),
        nameIndexDesc := std_sort (\<lambda>a b. key a > key b) (nameIndexDesc ia),
        cityIndexAsc := std_sort (\<lambda>a b. key a < key b) (cityIndexAsc ia),
        cityIndexDesc := std_sort (\<lambda>a b. key a > key b) (cityIndexDesc ia)\<rparr>"

text \<open>
  \<open>printSortedByName\<close>, \<open>printSortedByCity\<close>: for each index entry the first contact with
  that id (\<open>std::find_if\<close>) is printed, or an error line when there is none
  (\<open>None\<close>).  The two functions have the same body.
\<close>

definition printSortedByName :: "contact list \<Rightarrow> index_entry list \<Rightarrow> contact option list" where
  "printSortedByName cs nameIndex =
     map (\<lambda>idx. find (\<lambda>c. contact_id c = recordNumber idx) cs) nameIndex"

definition printSortedByCity :: "contact list \<Rightarrow> index_entry list \<Rightarrow> contact option list" where
  "printSortedByCity cs cityIndex =
     map (\<lambda>idx. find (\<lambda>c. contact_id c = recordNumber idx) cs) cityIndex"

text \<open>
  The binary searches use \<open>int\<close> positions.  The two inner scans widen the run of equal
  keys around the hit \<open>mid\<close>: \<open>start\<close> moves left while the previous key equals the
  searched one, \<open>end\<close> moves right while \<open>end < size() - 1\<close> and the next key equals it
  (there \<open>end \<ge> 0\<close> and the array is not empty, so the unsigned comparison agrees with
  the integer one).  Array sizes are far below \<open>2^31\<close>, so \<open>left + (right - left) / 2\<close>
  does not overflow and is modelled on \<open>int\<close>.
\<close>

function scanLeft :: "index_entry list \<Rightarrow> string \<Rightarrow> int \<Rightarrow> int" where
  "scanLeft a k start =
     (if start > 0 \<and> key (a ! nat (start - 1)) = k then scanLeft a k (start - 1) else start)"
  by pat_completeness auto
termination by (relation "measure (\<lambda>(a, k, s). nat s)") auto

function scanRight :: "index_entry list \<Rightarrow> string \<Rightarrow> int \<Rightarrow> int" where
  "scanRight a k end' =
     (if end' < int (length a) - 1 \<and> key (a ! nat (end' + 1)) = k
      then scanRight a k (end' + 1) else end')"
  by pat_completeness auto
termination by (relation "measure (\<lambda>(a, k, e). nat (int (length a) - e))") auto

text \<open>The block of a hit: both scans, then the record numbers from \<open>start\<close> to \<open>end\<close>.\<close>

definition collectMatches :: "index_entry list \<Rightarrow> string \<Rightarrow> int \<Rightarrow> int list" where
  "collectMatches a k mid =
     (let start = scanLeft a k mid; end' = scanRight a k mid
      in map (\<lambda>i. recordNumber (a ! nat i)) [start..end'])"

text \<open>
  The loop of \<open>binarySearchIterative\<close> on the bounds \<open>left\<close>, \<open>right\<close>; a hit collects
  the block and leaves the loop (\<open>break\<close>).
\<close>

function bsearchLoop :: "index_entry list \<Rightarrow> string \<Rightarrow> int \<Rightarrow> int \<Rightarrow> int list" where
  "bsearchLoop a k left right =
     (if left \<le> right then
        (let mid = left + (right - left) div 2 in
         if key (a ! nat mid) = k then collectMatches a k mid
         else if key (a ! nat mid) < k then bsearchLoop a k (mid + 1) right
         else bsearchLoop a k left (mid - 1))
      else [])"
  by pat_completeness auto
termination by (relation "measure (\<lambda>(a, k, l, r). nat (r - l + 1))") auto

text \<open>
  \<open>binarySearchIterative\<close>: \<open>right\<close> starts at \<open>size() - 1\<close>, which is \<open>-1\<close> for an
  empty array (the unsigned value converted to \<open>int\<close>), so the loop is not entered.
\<close>

definition binarySearchIterative :: "index_entry list \<Rightarrow> string \<Rightarrow> int list" where
  "binarySearchIterative a k = bsearchLoop a k 0 (int (length a) - 1)"

text \<open>
  \<open>binarySearchRecursive\<close>: a miss recurses into one half and appends its result to the
  (empty) local result vector.
\<close>

function binarySearchRecursive :: "index_entry list \<Rightarrow> string \<Rightarrow> int \<Rightarrow> int \<Rightarrow> int list" where
  "binarySearchRecursive a k left right =
     (let result = [] in
      if left > right then result
      else
        (let mid = left + (right - left) div 2 in
         if key (a ! nat mid) = k then result @ collectMatches a k mid
         else if key (a ! nat mid) < k then result @ binarySearchRecursive a k (mid + 1) right
         else result @ binarySearchRecursive a k left (mid - 1)))"
  by pat_completeness auto
termination by (relation "measure (\<lambda>(a, k, l, r). nat (r - l + 1))") auto

text \<open>
  The entries a contact contributes to the name arrays and to the city arrays, and the
  state the arrays are meant to be in after \<open>buildIndices\<close> and \<open>sortIndices\<close>: each
  array is a permutation of the entries of the contact vector, sorted ascending or
  descending on the key.
\<close>

abbreviation name_entry :: "contact \<Rightarrow> index_entry" where
  "name_entry c \<equiv> \<lparr>key = name c, recordNumber = contact_id c\<rparr>"

abbreviation city_entry :: "contact \<Rightarrow> index_entry" where
  "city_entry c \<equiv> \<lparr>key = city c, recordNumber = contact_id c\<rparr>"

definition index_ok :: "contact list \<Rightarrow> index_array \<Rightarrow> bool" where
  "index_ok cs ia \<longleftrightarrow>
     mset (nameIndexAsc ia) = mset (map name_entry cs) \<and> sorted (map key (nameIndexAsc ia)) \<and>
     mset (nameIndexDesc ia) = mset (map name_entry cs) \<and>
     sorted_wrt (\<ge>) (map key (nameIndexDesc ia)) \<and>
     mset (cityIndexAsc ia) = mset (map city_entry cs) \<and> sorted (map key (cityIndexAsc ia)) \<and>
     mset (cityIndexDesc ia) = mset (map city_entry cs) \<and>
     sorted_wrt (\<ge>) (map key (cityIndexDesc ia))"

declare scanLeft.simps [simp del] scanRight.simps [simp del]
  bsearchLoop.simps [simp del] binarySearchRecursive.simps [simp del]

subsection \<open>Helper lemmas\<close>

lemma upto_nat_upt:
  "0 \<le> i \<Longrightarrow> [i..j] = map int [nat i..<nat (j + 1)]"
proof (induction i j rule: upto.induct)
  case (1 i j)
  show ?case
  proof (cases "i \<le> j")
    case True
    with "1.prems" have j: "nat (j + 1) = Suc (nat j)" and i: "nat (i + 1) = Suc (nat i)"
      by (simp_all add: nat_add_distrib)
    from True "1.prems" have "nat i < Suc (nat j)" by simp
    then have "[nat i..<Suc (nat j)] = nat i # [Suc (nat i)..<Suc (nat j)]"
      by (rule upt_conv_Cons)
    with True "1.prems" "1.IH" show ?thesis by (simp add: upto.simps[of i j] i j)
  next
    case False
    then show ?thesis by (simp add: upto.simps[of i j])
  qed
qed

lemma map_filter_nth:
  "map f (filter P xs) = map (\<lambda>i. f (xs ! i)) (filter (\<lambda>i. P (xs ! i)) [0..<length xs])"
proof (induction xs rule: rev_induct)
  case (snoc x xs)
  have fl: "filter (\<lambda>i. P ((xs @ [x]) ! i)) [0..<length xs] = filter (\<lambda>i. P (xs ! i)) [0..<length xs]"
    by (rule filter_cong) (auto simp: nth_append)
  have "map (\<lambda>i. f ((xs @ [x]) ! i)) (filter (\<lambda>i. P (xs ! i)) [0..<length xs])
      = map (\<lambda>i. f (xs ! i)) (filter (\<lambda>i. P (xs ! i)) [0..<length xs])"
    by (rule map_cong) (auto simp: nth_append)
  with fl snoc show ?case by simp
qed simp

subsection \<open>The binary searches\<close>

lemma scanLeft_spec:
  "0 \<le> s \<Longrightarrow> s < int (length a) \<Longrightarrow> key (a ! nat s) = k \<Longrightarrow>
   0 \<le> scanLeft a k s \<and> scanLeft a k s \<le> s \<and>
   (\<forall>i. scanLeft a k s \<le> i \<and> i \<le> s \<longrightarrow> key (a ! nat i) = k) \<and>
   (scanLeft a k s = 0 \<or> key (a ! nat (scanLeft a k s - 1)) \<noteq> k)"
proof (induction a k s rule: scanLeft.induct)
  case (1 a k s)
  show ?case
  proof (cases "s > 0 \<and> key (a ! nat (s - 1)) = k")
    case True
    then have eq: "scanLeft a k s = scanLeft a k (s - 1)" by (subst scanLeft.simps) (rule if_P[OF True])
    from True "1.prems" have ih: "0 \<le> scanLeft a k (s - 1) \<and> scanLeft a k (s - 1) \<le> s - 1 \<and>
        (\<forall>i. scanLeft a k (s - 1) \<le> i \<and> i \<le> s - 1 \<longrightarrow> key (a ! nat i) = k) \<and>
        (scanLeft a k (s - 1) = 0 \<or> key (a ! nat (scanLeft a k (s - 1) - 1)) \<noteq> k)"
      by (intro "1.IH") auto
    have "\<forall>i. scanLeft a k (s - 1) \<le> i \<and> i \<le> s \<longrightarrow> key (a ! nat i) = k"
    proof (intro allI impI)
      fix i assume "scanLeft a k (s - 1) \<le> i \<and> i \<le> s"
      with ih "1.prems"(3) show "key (a ! nat i) = k" by (cases "i = s") auto
    qed
    with ih show ?thesis unfolding eq by auto
  next
    case False
    have eq: "scanLeft a k s = s" by (subst scanLeft.simps) (rule if_not_P[OF False])
    from False "1.prems" show ?thesis unfolding eq by auto
  qed
qed

lemma scanRight_spec:
  "0 \<le> e \<Longrightarrow> e < int (length a) \<Longrightarrow> key (a ! nat e) = k \<Longrightarrow>
   e \<le> scanRight a k e \<and> scanRight a k e < int (length a) \<and>
   (\<forall>i. e \<le> i \<and> i \<le> scanRight a k e \<longrightarrow> key (a ! nat i) = k) \<and>
   (scanRight a k e = int (length a) - 1 \<or> key (a ! nat (scanRight a k e + 1)) \<noteq> k)"
proof (induction a k e rule: scanRight.induct)
  case (1 a k e)
  show ?case
  proof (cases "e < int (length a) - 1 \<and> key (a ! nat (e + 1)) = k")
    case True
    then have eq: "scanRight a k e = scanRight a k (e + 1)" by (subst scanRight.simps) (rule if_P[OF True])
    from True "1.prems" have ih: "e + 1 \<le> scanRight a k (e + 1) \<and> scanRight a k (e + 1) < int (length a) \<and>
        (\<forall>i. e + 1 \<le> i \<and> i \<le> scanRight a k (e + 1) \<longrightarrow> key (a ! nat i) = k) \<and>
        (scanRight a k (e + 1) = int (length a) - 1 \<or> key (a ! nat (scanRight a k (e + 1) + 1)) \<noteq> k)"
      by (intro "1.IH") auto
    have "\<forall>i. e \<le> i \<and> i \<le> scanRight a k (e + 1) \<longrightarrow> key (a ! nat i) = k"
    proof (intro allI impI)
      fix i assume "e \<le> i \<and> i \<le> scanRight a k (e + 1)"
      with ih "1.prems"(3) show "key (a ! nat i) = k" by (cases "i = e") auto
    qed
    with ih show ?thesis unfolding eq by auto
  next
    case False
    have eq: "scanRight a k e = e" by (subst scanRight.simps) (rule if_not_P[OF False])
    from False "1.prems" show ?thesis unfolding eq by auto
  qed
qed

lemma sorted_key_mono:
  "sorted (map key a) \<Longrightarrow> i \<le> j \<Longrightarrow> j < length a \<Longrightarrow> key (a ! i) \<le> key (a ! j)"
  using sorted_nth_mono[of "map key a" i j] by simp

lemma block_filter:
  assumes srt: "sorted (map key a)" and s0: "0 \<le> s" and se: "s \<le> e" and el: "e < int (length a)"
    and blk: "\<forall>i. s \<le> i \<and> i \<le> e \<longrightarrow> key (a ! nat i) = k"
    and lb: "s = 0 \<or> key (a ! nat (s - 1)) \<noteq> k"
    and rb: "e = int (length a) - 1 \<or> key (a ! nat (e + 1)) \<noteq> k"
  shows "map (\<lambda>i. recordNumber (a ! nat i)) [s..e] = map recordNumber (filter (\<lambda>x. key x = k) a)"
proof -
  have ks: "key (a ! nat s) = k" and ke: "key (a ! nat e) = k" using blk se by auto
  have seteq: "set (filter (\<lambda>i. key (a ! i) = k) [0..<length a]) = set [nat s..<nat (e + 1)]"
  proof (rule set_eqI, rule iffI)
    fix i assume "i \<in> set (filter (\<lambda>i. key (a ! i) = k) [0..<length a])"
    then have il: "i < length a" and ik: "key (a ! i) = k" by auto
    show "i \<in> set [nat s..<nat (e + 1)]"
    proof (rule ccontr)
      assume "i \<notin> set [nat s..<nat (e + 1)]"
      then consider "i < nat s" | "nat e < i" using s0 se by fastforce
      then show False
      proof cases
        case 1
        with lb have nk: "key (a ! nat (s - 1)) \<noteq> k" by auto
        from 1 s0 se el have "i \<le> nat (s - 1)" "nat (s - 1) < length a"
          "nat (s - 1) \<le> nat s" "nat s < length a" by auto
        then have "key (a ! i) \<le> key (a ! nat (s - 1))" "key (a ! nat (s - 1)) \<le> key (a ! nat s)"
          using sorted_key_mono[OF srt] by blast+
        then have "key (a ! nat (s - 1)) = k" using ik ks by (intro order.antisym) simp_all
        with nk show False by contradiction
      next
        case 2
        with rb il have nk: "key (a ! nat (e + 1)) \<noteq> k" by auto
        from 2 s0 se il have "nat e \<le> nat (e + 1)" "nat (e + 1) < length a" "nat (e + 1) \<le> i" "i < length a"
          by auto
        then have "key (a ! nat e) \<le> key (a ! nat (e + 1))" "key (a ! nat (e + 1)) \<le> key (a ! i)"
          using sorted_key_mono[OF srt] by blast+
        then have "key (a ! nat (e + 1)) = k" using ik ke by (intro order.antisym) simp_all
        with nk show False by contradiction
      qed
    qed
  next
    fix i assume "i \<in> set [nat s..<nat (e + 1)]"
    then have "s \<le> int i \<and> int i \<le> e" "i < length a" using s0 el by auto
    moreover from this(1) blk have "key (a ! nat (int i)) = k" by blast
    ultimately show "i \<in> set (filter (\<lambda>i. key (a ! i) = k) [0..<length a])"
      by simp
  qed
  have fe: "filter (\<lambda>i. key (a ! i) = k) [0..<length a] = [nat s..<nat (e + 1)]"
    by (rule sorted_distinct_set_unique[OF _ _ _ _ seteq]) (simp_all add: sorted_wrt_filter)
  have "map recordNumber (filter (\<lambda>x. key x = k) a)
        = map (\<lambda>i. recordNumber (a ! i)) (filter (\<lambda>i. key (a ! i) = k) [0..<length a])"
    by (rule map_filter_nth)
  then show ?thesis by (simp add: fe upto_nat_upt[OF s0])
qed

lemma collectMatches_correct:
  assumes "sorted (map key a)" "0 \<le> mid" "mid < int (length a)" "key (a ! nat mid) = k"
  shows "collectMatches a k mid = map recordNumber (filter (\<lambda>x. key x = k) a)"
proof -
  note l = scanLeft_spec[OF assms(2,3,4)] and r = scanRight_spec[OF assms(2,3,4)]
  have "\<forall>i. scanLeft a k mid \<le> i \<and> i \<le> scanRight a k mid \<longrightarrow> key (a ! nat i) = k"
  proof (intro allI impI)
    fix i assume "scanLeft a k mid \<le> i \<and> i \<le> scanRight a k mid"
    with l r show "key (a ! nat i) = k" by (cases "i \<le> mid") auto
  qed
  with l r have "map (\<lambda>i. recordNumber (a ! nat i)) [scanLeft a k mid..scanRight a k mid]
                 = map recordNumber (filter (\<lambda>x. key x = k) a)"
    by (intro block_filter[OF assms(1)]) (auto simp del: upto.simps)
  then show ?thesis by (simp add: collectMatches_def)
qed

lemma bsearchLoop_correct:
  "sorted (map key a) \<Longrightarrow> 0 \<le> l \<Longrightarrow> r < int (length a) \<Longrightarrow>
   \<forall>i<length a. key (a ! i) = k \<longrightarrow> l \<le> int i \<and> int i \<le> r \<Longrightarrow>
   bsearchLoop a k l r = map recordNumber (filter (\<lambda>x. key x = k) a)"
proof (induction a k l r rule: bsearchLoop.induct)
  case (1 a k l r)
  note srt = "1.prems"(1) and inv = "1.prems"(4)
  show ?case
  proof (cases "l \<le> r")
    case False
    then have "bsearchLoop a k l r = []" by (subst bsearchLoop.simps) simp
    moreover have "filter (\<lambda>x. key x = k) a = []"
    proof (rule filter_False, rule ballI)
      fix x assume "x \<in> set a"
      then obtain i where "i < length a" "x = a ! i" by (auto simp: in_set_conv_nth)
      with False inv show "key x \<noteq> k" by fastforce
    qed
    ultimately show ?thesis by simp
  next
    case True
    define mid where "mid = l + (r - l) div 2"
    have lm: "l \<le> mid" and mr: "mid \<le> r" using True by (simp_all add: mid_def)
    with "1.prems"(2,3) have m0: "0 \<le> mid" and ml: "nat mid < length a" by simp_all
    have unf: "bsearchLoop a k l r =
        (if key (a ! nat mid) = k then collectMatches a k mid
         else if key (a ! nat mid) < k then bsearchLoop a k (mid + 1) r
         else bsearchLoop a k l (mid - 1))"
      using True by (subst bsearchLoop.simps) (simp add: mid_def Let_def)
    consider (hit) "key (a ! nat mid) = k" | (lt) "key (a ! nat mid) < k" | (gt) "k < key (a ! nat mid)"
      by fastforce
    then show ?thesis
    proof cases
      case hit
      with srt m0 ml show ?thesis unfolding unf by (simp add: collectMatches_correct)
    next
      case lt
      have "\<forall>i<length a. key (a ! i) = k \<longrightarrow> mid + 1 \<le> int i \<and> int i \<le> r"
      proof (intro allI impI)
        fix i assume i: "i < length a" "key (a ! i) = k"
        have "nat mid < i"
        proof (rule ccontr)
          assume "\<not> nat mid < i"
          then have "key (a ! i) \<le> key (a ! nat mid)" using sorted_key_mono[OF srt _ ml] by simp
          with i(2) lt show False by simp
        qed
        with i inv m0 show "mid + 1 \<le> int i \<and> int i \<le> r" by auto
      qed
      with lt "1.prems"(3) m0 have "bsearchLoop a k (mid + 1) r = map recordNumber (filter (\<lambda>x. key x = k) a)"
        by (intro "1.IH"(1)[OF True mid_def]) (simp_all add: srt)
      moreover from lt have "key (a ! nat mid) \<noteq> k" by (rule less_imp_neq)
      ultimately show ?thesis unfolding unf using lt by (simp only: if_False if_True)
    next
      case gt
      have "\<forall>i<length a. key (a ! i) = k \<longrightarrow> l \<le> int i \<and> int i \<le> mid - 1"
      proof (intro allI impI)
        fix i assume i: "i < length a" "key (a ! i) = k"
        have "i < nat mid"
        proof (rule ccontr)
          assume "\<not> i < nat mid"
          then have "key (a ! nat mid) \<le> key (a ! i)" using sorted_key_mono[OF srt _ i(1)] by simp
          with i(2) gt show False by simp
        qed
        with i inv m0 show "l \<le> int i \<and> int i \<le> mid - 1" by auto
      qed
      with gt "1.prems"(2) mr ml have "bsearchLoop a k l (mid - 1) = map recordNumber (filter (\<lambda>x. key x = k) a)"
        by (intro "1.IH"(2)[OF True mid_def]) (simp_all add: srt)
      moreover from gt have "key (a ! nat mid) \<noteq> k" "\<not> key (a ! nat mid) < k"
        by (simp_all add: less_imp_neq[symmetric] not_less less_imp_le)
      ultimately show ?thesis unfolding unf by (simp only: if_False)
    qed
  qed
qed

lemma binarySearchRecursive_loop:
  "binarySearchRecursive a k l r = bsearchLoop a k l r"
proof (induction a k l r rule: bsearchLoop.induct)
  case (1 a k l r)
  show ?case
    by (subst binarySearchRecursive.simps, subst bsearchLoop.simps) (simp add: "1.IH" Let_def)
qed

subsection \<open>Building and sorting\<close>

lemma buildStep_fold:
  "fold buildStep cs ia =
     ia\<lparr>nameIndexAsc := nameIndexAsc ia @ map name_entry cs,
        nameIndexDesc := nameIndexDesc ia @ map name_entry cs,
        cityIndexAsc := cityIndexAsc ia @ map city_entry cs,
        cityIndexDesc := cityIndexDesc ia @ map city_entry cs\<rparr>"
  by (induction cs arbitrary: ia) (simp_all add: buildStep_def Let_def)

lemma set_sort_insert [simp]: "set (sort_insert lt x ys) = insert x (set ys)"
  by (induction ys) auto

lemma mset_sort_insert [simp]: "mset (sort_insert lt x ys) = add_mset x (mset ys)"
  by (induction ys) auto

lemma mset_std_sort [simp]: "mset (std_sort lt xs) = mset xs"
  by (induction xs) (simp_all add: std_sort_def)

lemma sorted_std_sort_asc:
  fixes f :: "'a \<Rightarrow> 'b::linorder"
  shows "sorted (map f (std_sort (\<lambda>a b. f a < f b) xs))"
proof -
  have ins: "sorted (map f ys) \<Longrightarrow> sorted (map f (sort_insert (\<lambda>a b. f a < f b) x ys))" for x ys
    by (induction ys) auto
  show ?thesis by (induction xs) (simp_all add: std_sort_def ins)
qed

lemma sorted_std_sort_desc:
  fixes f :: "'a \<Rightarrow> 'b::linorder"
  shows "sorted_wrt (\<ge>) (map f (std_sort (\<lambda>a b. f a > f b) xs))"
proof -
  have ins: "sorted_wrt (\<ge>) (map f ys) \<Longrightarrow>
             sorted_wrt (\<ge>) (map f (sort_insert (\<lambda>a b. f a > f b) x ys))" for x ys
    by (induction ys) auto
  show ?thesis by (induction xs) (simp_all add: std_sort_def ins)
qed

lemma index_ok_build_sort: "index_ok cs (sortIndices (buildIndices cs ia))"
  by (simp add: index_ok_def sortIndices_def buildIndices_def buildStep_fold
      sorted_std_sort_asc sorted_std_sort_desc)

lemma mset_filter_entries:
  assumes "mset a = mset (map ent cs)"
  shows "mset (map recordNumber (filter (\<lambda>x. key x = k) a)) =
         mset (map (recordNumber \<circ> ent) (filter (\<lambda>c. key (ent c) = k) cs))"
proof -
  have "mset (filter (\<lambda>x. key x = k) a) = mset (filter (\<lambda>x. key x = k) (map ent cs))"
    by (simp add: mset_filter assms)
  then have "mset (map recordNumber (filter (\<lambda>x. key x = k) a)) =
             mset (map recordNumber (filter (\<lambda>x. key x = k) (map ent cs)))"
    by (metis mset_map)
  then show ?thesis by (simp add: filter_map)
qed

lemma find_distinct_id:
  "distinct (map contact_id cs) \<Longrightarrow> c \<in> set cs \<Longrightarrow>
   find (\<lambda>c'. contact_id c' = contact_id c) cs = Some c"
  by (induction cs) (auto simp: image_iff)

lemma print_by_index:
  fixes ent :: "contact \<Rightarrow> index_entry" and cs :: "contact list"
  assumes perm: "mset arr = mset (map ent cs)" and rn: "\<And>c. recordNumber (ent c) = contact_id c"
    and dist: "distinct (map contact_id cs)"
  shows "\<exists>ys. map (\<lambda>idx. find (\<lambda>c. contact_id c = recordNumber idx) cs) arr = map Some ys \<and>
              mset ys = mset cs \<and> map ent ys = arr"
proof -
  define g :: "index_entry \<Rightarrow> contact" where "g e = the (find (\<lambda>c. contact_id c = recordNumber e) cs)" for e
  have gc: "g (ent c) = c" "find (\<lambda>c'. contact_id c' = recordNumber (ent c)) cs = Some c"
    if "c \<in> set cs" for c
    using find_distinct_id[OF dist that] by (simp_all add: g_def rn)
  have setarr: "set arr = ent ` set cs" using perm by (metis mset_map set_image_mset set_mset_mset)
  have "map (\<lambda>idx. find (\<lambda>c. contact_id c = recordNumber idx) cs) arr = map Some (map g arr)"
    using setarr gc by (auto intro!: map_cong)
  moreover have "mset (map g arr) = mset cs"
  proof -
    have "mset (map g arr) = image_mset g (image_mset ent (mset cs))" by (simp add: perm)
    also have "\<dots> = image_mset (g \<circ> ent) (mset cs)" by (simp add: image_mset.compositionality)
    also have "\<dots> = image_mset id (mset cs)" by (rule image_mset_cong) (simp add: gc)
    finally show ?thesis by simp
  qed
  moreover have "map ent (map g arr) = arr"
    using setarr gc by (auto intro!: map_idI)
  ultimately show ?thesis by blast
qed


lemma search_entries:
  assumes "sorted (map key a)" and "mset a = mset (map ent cs)"
  shows "mset (binarySearchIterative a k) = mset (map (recordNumber \<circ> ent) (filter (\<lambda>c. key (ent c) = k) cs))"
proof -
  have "binarySearchIterative a k = map recordNumber (filter (\<lambda>x. key x = k) a)"
    unfolding binarySearchIterative_def by (rule bsearchLoop_correct[OF assms(1)]) auto
  with mset_filter_entries[OF assms(2)] show ?thesis by simp
qed

lemma print_entries:
  fixes ent :: "contact \<Rightarrow> index_entry" and cs :: "contact list"
  assumes "mset arr = mset (map ent cs)" "\<And>c. recordNumber (ent c) = contact_id c"
    and "distinct (map contact_id cs)" and "\<And>c. key (ent c) = attr c" and "R (map key arr)"
  shows "\<exists>ys. map (\<lambda>idx. find (\<lambda>c. contact_id c = recordNumber idx) cs) arr = map Some ys \<and>
              mset ys = mset cs \<and> R (map attr ys)"
proof -
  obtain ys where ys: "map (\<lambda>idx. find (\<lambda>c. contact_id c = recordNumber idx) cs) arr = map Some ys"
    "mset ys = mset cs" "map ent ys = arr"
    using print_by_index[OF assms(1,2,3)] by blast
  have "map key arr = map attr ys" unfolding ys(3)[symmetric] by (simp add: assms(4))
  with ys assms(5) show ?thesis by auto
qed

subsection \<open>Properties\<close>

text \<open>
  C15.  After \<open>buildIndices\<close> and \<open>sortIndices\<close>, as \<open>main\<close>, \<open>editContact\<close> and
  \<open>deleteContact\<close> run them, each of the four arrays holds exactly one entry per contact
  (its name or its city with its id) and is sorted: ascending arrays non-decreasing,
  descending ones non-increasing.
\<close>

theorem sortIndices_buildIndices_ok:
  "index_ok cs (sortIndices (buildIndices cs ia))"
  by (rule index_ok_build_sort)

text \<open>
  C16.  On an array sorted by key, \<open>binarySearchIterative\<close> returns the record numbers
  of all entries with the searched key, in array order, and nothing else (in particular
  the empty vector when the key is absent or the array is empty).
\<close>

theorem binarySearchIterative_correct:
  assumes "sorted (map key a)"
  shows "binarySearchIterative a k = map recordNumber (filter (\<lambda>x. key x = k) a)"
  unfolding binarySearchIterative_def using assms by (rule bsearchLoop_correct) auto

theorem binarySearchIterative_correct_witness:
  "binarySearchIterative [\<lparr>key = ''Al'', recordNumber = 2\<rparr>, \<lparr>key = ''Bob'', recordNumber = 3\<rparr>,
      \<lparr>key = ''Bob'', recordNumber = 1\<rparr>, \<lparr>key = ''Cy'', recordNumber = 4\<rparr>] ''Bob'' = [3, 1]"
proof -
  have h: "sorted (map key [\<lparr>key = ''Al'', recordNumber = 2\<rparr>, \<lparr>key = ''Bob'', recordNumber = (3::int)\<rparr>,
      \<lparr>key = ''Bob'', recordNumber = 1\<rparr>, \<lparr>key = ''Cy'', recordNumber = 4\<rparr>])" by simp
  show ?thesis using binarySearchIterative_correct[OF h, of "''Bob''"] by simp
qed

text \<open>
  C17.  \<open>binarySearchRecursive\<close>, called as \<open>main\<close> calls it with \<open>left = 0\<close> and
  \<open>right = size() - 1\<close>, returns the same vector on an array sorted by key: the record
  numbers of all entries with the searched key.
\<close>

theorem binarySearchRecursive_correct:
  assumes "sorted (map key a)"
  shows "binarySearchRecursive a k 0 (int (length a) - 1) = map recordNumber (filter (\<lambda>x. key x = k) a)"
  unfolding binarySearchRecursive_loop using assms by (rule bsearchLoop_correct) auto

theorem binarySearchRecursive_correct_witness:
  "binarySearchRecursive [\<lparr>key = ''Bern'', recordNumber = 3\<rparr>, \<lparr>key = ''Oslo'', recordNumber = 4\<rparr>,
      \<lparr>key = ''Oslo'', recordNumber = 1\<rparr>, \<lparr>key = ''Rome'', recordNumber = 2\<rparr>] ''Oslo'' 0 3 = [4, 1]"
proof -
  have h: "sorted (map key [\<lparr>key = ''Bern'', recordNumber = 3\<rparr>, \<lparr>key = ''Oslo'', recordNumber = (4::int)\<rparr>,
      \<lparr>key = ''Oslo'', recordNumber = 1\<rparr>, \<lparr>key = ''Rome'', recordNumber = 2\<rparr>])" by simp
  show ?thesis using binarySearchRecursive_correct[OF h, of "''Oslo''"] by simp
qed

text \<open>
  C18.  End to end: when the index arrays are in the state \<open>buildIndices\<close> and
  \<open>sortIndices\<close> leave them, the name search on \<open>nameIndexAsc\<close> returns the ids of exactly
  the contacts with that name, and the city search on \<open>cityIndexAsc\<close> those with that
  city, each as often as it occurs (as multisets, since \<open>std::sort\<close> leaves the order of
  equal keys open).
\<close>

theorem search_index_finds_all:
  assumes "index_ok cs ia"
  shows "mset (binarySearchIterative (nameIndexAsc ia) k) = mset (map contact_id (filter (\<lambda>c. name c = k) cs)) \<and>
         mset (binarySearchIterative (cityIndexAsc ia) k) = mset (map contact_id (filter (\<lambda>c. city c = k) cs))"
  using search_entries[of "nameIndexAsc ia" name_entry cs k] search_entries[of "cityIndexAsc ia" city_entry cs k]
    assms by (simp add: index_ok_def comp_def)

theorem search_index_finds_all_witness:
  "mset (binarySearchIterative (nameIndexAsc (sortIndices (buildIndices sampleContacts IndexArray))) ''Bob'')
     = mset [1, 3] \<and>
   mset (binarySearchIterative (cityIndexAsc (sortIndices (buildIndices sampleContacts IndexArray))) ''Oslo'')
     = mset [1, 4]"
  using search_index_finds_all[OF index_ok_build_sort[of sampleContacts IndexArray]]
  by (simp add: sampleContacts_def)

text \<open>
  With sorted index arrays and distinct contact ids, \<open>printSortedByName\<close> on
  \<open>nameIndexAsc\<close> prints every contact exactly once (no "not found" line) in
  non-decreasing name order, and on \<open>nameIndexDesc\<close> in non-increasing name order.
\<close>

theorem printSortedByName_sorted:
  assumes "index_ok cs ia" and "distinct (map contact_id cs)"
  shows "(\<exists>ys. printSortedByName cs (nameIndexAsc ia) = map Some ys \<and> mset ys = mset cs \<and> sorted (map name ys)) \<and>
         (\<exists>ys. printSortedByName cs (nameIndexDesc ia) = map Some ys \<and> mset ys = mset cs \<and>
              sorted_wrt (\<ge>) (map name ys))"
  using assms unfolding printSortedByName_def index_ok_def
  by (auto intro!: print_entries[where ent = name_entry])

theorem printSortedByName_sorted_witness:
  "\<exists>ys. printSortedByName sampleContacts (nameIndexAsc (sortIndices (buildIndices sampleContacts IndexArray)))
          = map Some ys \<and> mset ys = mset sampleContacts \<and> sorted (map name ys)"
proof -
  have d: "distinct (map contact_id sampleContacts)" by (simp add: sampleContacts_def)
  show ?thesis using printSortedByName_sorted[OF index_ok_build_sort d] by blast
qed

text \<open>
  Likewise \<open>printSortedByCity\<close> prints every contact exactly once, in
  non-decreasing city order on \<open>cityIndexAsc\<close> and non-increasing on \<open>cityIndexDesc\<close>.
\<close>

theorem printSortedByCity_sorted:
  assumes "index_ok cs ia" and "distinct (map contact_id cs)"
  shows "(\<exists>ys. printSortedByCity cs (cityIndexAsc ia) = map Some ys \<and> mset ys = mset cs \<and> sorted (map city ys)) \<and>
         (\<exists>ys. printSortedByCity cs (cityIndexDesc ia) = map Some ys \<and> mset ys = mset cs \<and>
              sorted_wrt (\<ge>) (map city ys))"
  using assms unfolding printSortedByCity_def index_ok_def
  by (auto intro!: print_entries[where ent = city_entry])

theorem printSortedByCity_sorted_witness:
  "\<exists>ys. printSortedByCity sampleContacts (cityIndexDesc (sortIndices (buildIndices sampleContacts IndexArray)))
          = map Some ys \<and> mset ys = mset sampleContacts \<and> sorted_wrt (\<ge>) (map city ys)"
proof -
  have d: "distinct (map contact_id sampleContacts)" by (simp add: sampleContacts_def)
  show ?thesis using printSortedByCity_sorted[OF index_ok_build_sort d] by blast
qed

end
