(* ===== verification/Contact_Book.thy ===== *)
theory Contact_Book
  imports Index_Array
begin

text \<open>
  The operations of \<open>src/contact.cpp\<close> that change the contact vector:
  \<open>inputContacts\<close>, \<open>editContact\<close> and \<open>deleteContact\<close>.  Console input is the list
  of lines \<open>std::getline\<close> would return; the prompts are not modelled.  A field is read
  again until it is valid; when the input runs out, \<open>getline\<close> fails, leaves the field
  empty and the retry loop never ends, which is the result \<open>None\<close>.
\<close>

text \<open>The retry loop of one field: the first valid line, and the input after it.\<close>

fun readValid :: "(string \<Rightarrow> bool) \<Rightarrow> string list \<Rightarrow> (string \<times> string list) option" where
  "readValid valid [] = None"
| "readValid valid (l # ls) = (if valid l then Some (l, ls) else readValid valid ls)"

text \<open>
  The \<open>for\<close> loop of \<open>inputContacts\<close>: each contact takes the next id from
  \<open>global_id_counter\<close> (post-increment), then a valid name, phone number and city, and is
  appended to the vector.  The state is the vector, the counter and the remaining input.
  The count itself (read with \<open>std::cin >> numContacts\<close>, retried until it is a
  non-negative number) is the parameter \<open>n\<close>.
\<close>

fun inputLoop :: "nat \<Rightarrow> int \<Rightarrow> string list \<Rightarrow> contact list \<Rightarrow> (contact list \<times> int \<times> string list) option" where
  "inputLoop 0 counter inp contacts = Some (contacts, counter, inp)"
| "inputLoop (Suc n) counter inp contacts =
     (let cid = counter; counter = counter + 1 in
      case readValid validateName inp of None \<Rightarrow> None | Some (nm, inp) \<Rightarrow>
      case readValid validatePhoneNumber inp of None \<Rightarrow> None | Some (ph, inp) \<Rightarrow>
      case readValid validateCity inp of None \<Rightarrow> None | Some (ct, inp) \<Rightarrow>
        inputLoop n counter inp
          (contacts @ [\<lparr>contact_id = cid, name = nm, phoneNumber = ph, city = ct\<rparr>]))"

definition inputContacts ::
  "nat \<Rightarrow> int \<Rightarrow> string list \<Rightarrow> contact list \<Rightarrow> (contact list \<times> int \<times> string list) option" where
  "inputContacts numContacts global_id_counter inp contacts =
     inputLoop numContacts global_id_counter inp contacts"

text \<open>
  \<open>editContact\<close>: the first contact whose name is the key is edited with the three
  answers (an empty answer keeps the field; a phone number that fails
  \<open>validatePhoneNumber\<close> is rejected), the indices are rebuilt and sorted, and the loop
  stops (\<open>break\<close>).  Without such a contact nothing changes.  The answers are read only
  when a contact is found; they are parameters here.
\<close>

definition editFields :: "string \<Rightarrow> string \<Rightarrow> string \<Rightarrow> contact \<Rightarrow> contact" where
  "editFields newName newPhone newCity contact =
     (let contact = (if newName \<noteq> [] then contact\<lparr>name := newName\<rparr> else contact);
          contact = (if newPhone \<noteq> [] then
                       (if validatePhoneNumber newPhone then contact\<lparr>phoneNumber := newPhone\<rparr>
                        else contact)
                     else contact);
          contact = (if newCity \<noteq> [] then contact\<lparr>city := newCity\<rparr> else contact)
      in contact)"

fun editFirst :: "string \<Rightarrow> (contact \<Rightarrow> contact) \<Rightarrow> contact list \<Rightarrow> contact list option" where
  "editFirst k f [] = None"
| "editFirst k f (c # cs) =
     (if name c = k then Some (f c # cs)
      else (case editFirst k f cs of None \<Rightarrow> None | Some cs' \<Rightarrow> Some (c # cs')))"

definition editContact ::
  "contact list \<Rightarrow> index_array \<Rightarrow> string \<Rightarrow> string \<Rightarrow> string \<Rightarrow> string \<Rightarrow> contact list \<times> index_array" where
  "editContact contacts indices k newName newPhone newCity =
     (case editFirst k (editFields newName newPhone newCity) contacts of
        None \<Rightarrow> (contacts, indices)
      | Some contacts' \<Rightarrow> (contacts', sortIndices (buildIndices contacts' indices)))"

text \<open>
  \<open>deleteContact\<close>: \<open>std::remove_if\<close> (stable) followed by \<open>erase\<close> keeps the contacts
  whose name is not the key; when it removed any, the indices are rebuilt and sorted.
\<close>

definition deleteContact :: "contact list \<Rightarrow> index_array \<Rightarrow> string \<Rightarrow> contact list \<times> index_array" where
  "deleteContact contacts indices k =
     (let kept = filter (\<lambda>c. name c \<noteq> k) contacts in
      if length kept \<noteq> length contacts then (kept, sortIndices (buildIndices kept indices))
      else (contacts, indices))"

text \<open>
  The state the contact vector is meant to be in: every contact passed the validators,
  ids are distinct, and all are below the id counter, so the next id is fresh.
\<close>

definition valid_contact :: "contact \<Rightarrow> bool" where
  "valid_contact c \<longleftrightarrow>
     validateName (name c) \<and> validatePhoneNumber (phoneNumber c) \<and> validateCity (city c)"

definition contacts_ok :: "int \<Rightarrow> contact list \<Rightarrow> bool" where
  "contacts_ok counter cs \<longleftrightarrow>
     list_all valid_contact cs \<and> distinct (map contact_id cs) \<and> list_all (\<lambda>c. contact_id c < counter) cs"

subsection \<open>Helper lemmas\<close>

lemma readValid_Some:
  "readValid v inp = Some (l, rest) \<Longrightarrow> v l \<and> length rest < length inp"
  by (induction inp) (auto split: if_splits)

lemma editFields_valid:
  "valid_contact c \<Longrightarrow> valid_contact (editFields nn np nc c) \<and> contact_id (editFields nn np nc c) = contact_id c"
  by (simp add: editFields_def valid_contact_def validateName_def validateCity_def Let_def)

lemma inputLoop_ok:
  "inputLoop n counter inp cs = Some (cs', counter', rest) \<Longrightarrow> contacts_ok counter cs \<Longrightarrow>
   contacts_ok counter' cs' \<and> counter' = counter + int n \<and>
   (\<exists>new. cs' = cs @ new \<and> map contact_id new = map (\<lambda>i. counter + int i) [0..<n])"
proof (induction n arbitrary: counter inp cs)
  case 0
  then show ?case by simp
next
  case (Suc n)
  from Suc.prems(1) obtain nm inp1 ph inp2 ct inp3 where
    r1: "readValid validateName inp = Some (nm, inp1)" and
    r2: "readValid validatePhoneNumber inp1 = Some (ph, inp2)" and
    r3: "readValid validateCity inp2 = Some (ct, inp3)" and
    rec: "inputLoop n (counter + 1) inp3 (cs @ [\<lparr>contact_id = counter, name = nm, phoneNumber = ph, city = ct\<rparr>])
            = Some (cs', counter', rest)"
    by (auto simp: Let_def split: option.splits prod.splits)
  let ?c = "\<lparr>contact_id = counter, name = nm, phoneNumber = ph, city = ct\<rparr>"
  have "valid_contact ?c" using readValid_Some[OF r1] readValid_Some[OF r2] readValid_Some[OF r3]
    by (simp add: valid_contact_def)
  with Suc.prems(2) have ok: "contacts_ok (counter + 1) (cs @ [?c])"
    by (auto simp: contacts_ok_def list_all_iff)
  from Suc.IH[OF rec ok] obtain new where
    "contacts_ok counter' cs'" "counter' = counter + 1 + int n" "cs' = cs @ ?c # new"
    "map contact_id new = map (\<lambda>i. counter + 1 + int i) [0..<n]" by auto
  moreover have "map (\<lambda>i. counter + int i) [0..<Suc n] = counter # map (\<lambda>i. counter + 1 + int i) [0..<n]"
    by (simp add: map_upt_Suc del: upt_Suc)
  ultimately show ?case by auto
qed

lemma inputLoop_returns:
  "list_all (\<lambda>(a, b, c). validateName a \<and> validatePhoneNumber b \<and> validateCity c) fs \<Longrightarrow>
   \<exists>new. inputLoop (length fs) counter (concat (map (\<lambda>(a, b, c). [a, b, c]) fs) @ rest) cs
            = Some (cs @ new, counter + int (length fs), rest) \<and>
          map (\<lambda>c. (name c, phoneNumber c, city c)) new = fs"
proof (induction fs arbitrary: counter cs)
  case Nil
  then show ?case by simp
next
  case (Cons f fs)
  obtain a b c where f: "f = (a, b, c)" by (cases f)
  with Cons.prems have v: "validateName a" "validatePhoneNumber b" "validateCity c" by auto
  let ?c = "\<lparr>contact_id = counter, name = a, phoneNumber = b, city = c\<rparr>"
  from Cons.prems f have fs: "list_all (\<lambda>(a, b, c). validateName a \<and> validatePhoneNumber b \<and> validateCity c) fs"
    by simp
  obtain new where
    "inputLoop (length fs) (counter + 1) (concat (map (\<lambda>(a, b, c). [a, b, c]) fs) @ rest) (cs @ [?c])
       = Some (cs @ [?c] @ new, counter + 1 + int (length fs), rest)"
    "map (\<lambda>c. (name c, phoneNumber c, city c)) new = fs"
    using Cons.IH[OF fs, of "counter + 1" "cs @ [?c]"] by auto
  with v f show ?case
    by (intro exI[of _ "?c # new"]) (simp add: Let_def algebra_simps)
qed

lemma editFirst_spec:
  "editFirst k f cs =
     (if list_ex (\<lambda>c. name c = k) cs
      then Some (takeWhile (\<lambda>c. name c \<noteq> k) cs @ f (hd (dropWhile (\<lambda>c. name c \<noteq> k) cs)) #
                 tl (dropWhile (\<lambda>c. name c \<noteq> k) cs))
      else None)"
  by (induction cs) auto

lemma editFirst_ok:
  assumes "editFirst k (editFields nn np nc) cs = Some cs'" "contacts_ok counter cs"
  shows "contacts_ok counter cs' \<and> map contact_id cs' = map contact_id cs"
  using assms
proof (induction cs arbitrary: cs')
  case (Cons c cs)
  show ?case
  proof (cases "name c = k")
    case True
    with Cons.prems editFields_valid[of c nn np nc] show ?thesis by (auto simp: contacts_ok_def)
  next
    case False
    with Cons.prems(1) obtain cs1 where e: "editFirst k (editFields nn np nc) cs = Some cs1" "cs' = c # cs1"
      by (auto split: option.splits)
    from Cons.prems(2) have "contacts_ok counter cs" by (simp add: contacts_ok_def)
    from Cons.IH[OF e(1) this] have ih: "contacts_ok counter cs1" "map contact_id cs1 = map contact_id cs" by auto
    from ih(2) have "set (map contact_id cs1) = set (map contact_id cs)" by simp
    with Cons.prems(2) ih e(2) show ?thesis by (auto simp: contacts_ok_def)
  qed
qed simp

lemma contacts_ok_filter: "contacts_ok counter cs \<Longrightarrow> contacts_ok counter (filter P cs)"
  by (auto simp: contacts_ok_def list_all_iff distinct_map_filter)

lemma filter_length_eq:
  "length (filter P xs) = length xs \<Longrightarrow> filter P xs = xs"
  by (metis filter_id_conv length_filter_less less_irrefl)

lemma deleteContact_fst: "fst (deleteContact cs ia k) = filter (\<lambda>c. name c \<noteq> k) cs"
  using filter_length_eq[of "\<lambda>c. name c \<noteq> k" cs] by (auto simp: deleteContact_def Let_def)

text \<open>Deletion keeps the index arrays consistent and the contacts valid.\<close>

lemma deleteContact_inv:
  assumes "index_ok cs ia" "contacts_ok counter cs"
  shows "index_ok (fst (deleteContact cs ia k)) (snd (deleteContact cs ia k)) \<and>
         contacts_ok counter (fst (deleteContact cs ia k))"
proof (cases "length (filter (\<lambda>c. name c \<noteq> k) cs) = length cs")
  case True
  with assms show ?thesis by (simp add: deleteContact_def)
next
  case False
  with assms(2) show ?thesis by (simp add: deleteContact_def Let_def index_ok_build_sort contacts_ok_filter)
qed

subsection \<open>Properties\<close>

text \<open>
  C26.  \<open>inputContacts\<close>, when it returns, keeps the contacts it was given, appends
  contacts that pass the validators with the consecutive ids \<open>counter, counter + 1, ...\<close>,
  advances the counter by their number, and so keeps the ids distinct and below the
  counter.
\<close>

theorem inputContacts_ok:
  assumes "contacts_ok counter cs" and "inputContacts n counter inp cs = Some (cs', counter', rest)"
  shows "contacts_ok counter' cs' \<and> counter' = counter + int n \<and> take (length cs) cs' = cs \<and>
         map contact_id (drop (length cs) cs') = map (\<lambda>i. counter + int i) [0..<n]"
  using inputLoop_ok[OF assms(2)[unfolded inputContacts_def] assms(1)] by auto

theorem inputContacts_ok_witness:
  "inputContacts 2 1 [''Bob'', ''12-34'', ''5550001'', ''Oslo'', [], ''Al'', ''5550002'', ''Rome''] [] =
     Some ([\<lparr>contact_id = 1, name = ''Bob'', phoneNumber = ''5550001'', city = ''Oslo''\<rparr>,
            \<lparr>contact_id = 2, name = ''Al'', phoneNumber = ''5550002'', city = ''Rome''\<rparr>], 3, []) \<and>
   contacts_ok 3 [\<lparr>contact_id = 1, name = ''Bob'', phoneNumber = ''5550001'', city = ''Oslo''\<rparr>,
            \<lparr>contact_id = 2, name = ''Al'', phoneNumber = ''5550002'', city = ''Rome''\<rparr>]"
proof -
  have h: "contacts_ok 1 []" by (simp add: contacts_ok_def)
  have r: "inputContacts 2 1 [''Bob'', ''12-34'', ''5550001'', ''Oslo'', [], ''Al'', ''5550002'', ''Rome''] [] =
     Some ([\<lparr>contact_id = 1, name = ''Bob'', phoneNumber = ''5550001'', city = ''Oslo''\<rparr>,
            \<lparr>contact_id = 2, name = ''Al'', phoneNumber = ''5550002'', city = ''Rome''\<rparr>], 3, [])"
    by (simp add: inputContacts_def numeral_2_eq_2 validateName_def validatePhoneNumber_def validateCity_def is_digit_def)
  show ?thesis using inputContacts_ok[OF h r] r by simp
qed

text \<open>
  C27.  \<open>inputContacts\<close> returns (its retry loops end) whenever the input supplies, for
  each contact, a valid name, phone number and city: it consumes exactly those lines and
  appends the contacts with these fields, in order.
\<close>

theorem inputContacts_returns:
  assumes "list_all (\<lambda>(a, b, c). validateName a \<and> validatePhoneNumber b \<and> validateCity c) fs"
  shows "\<exists>new. inputContacts (length fs) counter (concat (map (\<lambda>(a, b, c). [a, b, c]) fs) @ rest) cs
                = Some (cs @ new, counter + int (length fs), rest) \<and>
              map (\<lambda>c. (name c, phoneNumber c, city c)) new = fs"
  unfolding inputContacts_def by (rule inputLoop_returns[OF assms])

theorem inputContacts_returns_witness:
  "\<exists>new. inputContacts 1 5 ([''Dee'', ''5550005'', ''Kyiv''] @ [''rest'']) []
            = Some (new, 6, [''rest'']) \<and>
          map (\<lambda>c. (name c, phoneNumber c, city c)) new = [(''Dee'', ''5550005'', ''Kyiv'')]"
proof -
  have h: "list_all (\<lambda>(a, b, c). validateName a \<and> validatePhoneNumber b \<and> validateCity c)
             [(''Dee'', ''5550005'', ''Kyiv'')]"
    by (simp add: validateName_def validatePhoneNumber_def validateCity_def is_digit_def)
  show ?thesis using inputContacts_returns[OF h, of 5 "[''rest'']" "[]"] by simp
qed

text \<open>
  C28.  \<open>deleteContact\<close> removes every contact with the given name and keeps the others
  in order; the rebuilt index arrays are again sorted permutations of the remaining
  contacts' entries, and the vector stays valid with distinct ids.
\<close>

theorem deleteContact_spec:
  assumes "index_ok cs ia" and "contacts_ok counter cs"
  shows "fst (deleteContact cs ia k) = filter (\<lambda>c. name c \<noteq> k) cs \<and>
         index_ok (fst (deleteContact cs ia k)) (snd (deleteContact cs ia k)) \<and>
         contacts_ok counter (fst (deleteContact cs ia k))"
  using deleteContact_fst deleteContact_inv[OF assms] by simp

theorem deleteContact_spec_witness:
  "fst (deleteContact sampleContacts (sortIndices (buildIndices sampleContacts IndexArray)) ''Bob'')
     = [sampleContacts ! 1, sampleContacts ! 3] \<and>
   contacts_ok 5 (fst (deleteContact sampleContacts (sortIndices (buildIndices sampleContacts IndexArray)) ''Bob''))"
proof -
  have h: "contacts_ok 5 sampleContacts"
    by (simp add: contacts_ok_def sampleContacts_def valid_contact_def validateName_def
          validatePhoneNumber_def validateCity_def is_digit_def)
  have f: "filter (\<lambda>c. name c \<noteq> ''Bob'') sampleContacts = [sampleContacts ! 1, sampleContacts ! 3]"
    by (simp add: sampleContacts_def)
  note sp = deleteContact_spec[OF index_ok_build_sort h, where k = "''Bob''" and ia1 = IndexArray]
  then have e: "fst (deleteContact sampleContacts (sortIndices (buildIndices sampleContacts IndexArray)) ''Bob'')
     = [sampleContacts ! 1, sampleContacts ! 3]" using f by simp
  show ?thesis using e sp by blast
qed

text \<open>
  C29.  \<open>editContact\<close> edits only the first contact with the given name (each answer
  that is empty, or a phone number that fails validation, keeps the old field), or
  changes nothing when there is none; ids are unchanged, the vector stays valid and the
  index arrays are consistent with it.
\<close>

theorem editContact_spec:
  assumes "index_ok cs ia" and "contacts_ok counter cs"
  shows "fst (editContact cs ia k nn np nc) =
           (if list_ex (\<lambda>c. name c = k) cs
            then takeWhile (\<lambda>c. name c \<noteq> k) cs @ editFields nn np nc (hd (dropWhile (\<lambda>c. name c \<noteq> k) cs)) #
                 tl (dropWhile (\<lambda>c. name c \<noteq> k) cs)
            else cs) \<and>
         map contact_id (fst (editContact cs ia k nn np nc)) = map contact_id cs \<and>
         contacts_ok counter (fst (editContact cs ia k nn np nc)) \<and>
         index_ok (fst (editContact cs ia k nn np nc)) (snd (editContact cs ia k nn np nc))"
proof (cases "editFirst k (editFields nn np nc) cs")
  case None
  with assms show ?thesis by (simp add: editContact_def editFirst_spec split: if_splits)
next
  case (Some cs')
  with editFirst_ok[OF Some assms(2)] show ?thesis
    by (simp add: editContact_def index_ok_build_sort editFirst_spec[of k "editFields nn np nc" cs] split: if_splits)
qed

theorem editContact_spec_witness:
  "map city (fst (editContact sampleContacts (sortIndices (buildIndices sampleContacts IndexArray))
       ''Bob'' [] ''bad'' ''Lund'')) = [''Lund'', ''Rome'', ''Bern'', ''Oslo'']"
proof -
  have h: "contacts_ok 5 sampleContacts"
    by (simp add: contacts_ok_def sampleContacts_def valid_contact_def validateName_def
          validatePhoneNumber_def validateCity_def is_digit_def)
  show ?thesis using editContact_spec[OF index_ok_build_sort h, where k = "''Bob''" and nn = "[]" and np = "''bad''" and nc = "''Lund''" and ia1 = IndexArray]
    by (simp add: sampleContacts_def editFields_def Let_def validatePhoneNumber_def)
qed

end
