(* ===== verification/Linked_List.thy ===== *)
theory Linked_List
  imports Contact
begin

text \<open>
  The sorted singly linked list of contacts (\<open>LinkedList\<close> in \<open>src/linked_list.h\<close> and
  \<open>src/linked_list.cpp\<close>).  The chain of \<open>ListNode\<close>s owned through \<open>unique_ptr\<close>s is
  the list of the contacts it holds, from \<open>head\<close>; every operation walks it with a
  \<open>current\<close> pointer, modelled as recursion on the rest of the chain.  The operations that
  only print (\<open>search\<close>, the messages of \<open>remove\<close>) return what they print.
\<close>

datatype PrimarySortAttribute = P_NAME | P_CITY
datatype SecondarySortAttribute = S_NAME | S_CITY
datatype SortOrder = ASCENDING | DESCENDING

record linked_list =
  head :: "contact list"
  primaryAttribute :: PrimarySortAttribute
  secondaryAttribute :: SecondarySortAttribute
  primaryOrder :: SortOrder
  secondaryOrder :: SortOrder

text \<open>The constructor: an empty list with the given sort attributes.\<close>

definition LinkedList ::
  "PrimarySortAttribute \<Rightarrow> SecondarySortAttribute \<Rightarrow> SortOrder \<Rightarrow> SortOrder \<Rightarrow> linked_list" where
  "LinkedList primaryAttr secondaryAttr primaryOrd secondaryOrd =
     \<lparr>head = [], primaryAttribute = primaryAttr, secondaryAttribute = secondaryAttr,
      primaryOrder = primaryOrd, secondaryOrder = secondaryOrd\<rparr>"

text \<open>
  The move constructor and the move assignment, on the new (or assigned) object and the
  moved-from \<open>other\<close>: the chain is taken over, the four attributes copied, and
  \<open>other.head\<close> is left null.  \<open>same\<close> is the address test \<open>this == &other\<close>.
\<close>

definition ll_move :: "linked_list \<Rightarrow> linked_list \<times> linked_list" where
  "ll_move other =
     (\<lparr>head = head other, primaryAttribute = primaryAttribute other,
       secondaryAttribute = secondaryAttribute other, primaryOrder = primaryOrder other,
       secondaryOrder = secondaryOrder other\<rparr>, other\<lparr>head := []\<rparr>)"

definition ll_moveAssign :: "bool \<Rightarrow> linked_list \<Rightarrow> linked_list \<Rightarrow> linked_list \<times> linked_list" where
  "ll_moveAssign same this other =
     (if \<not> same then
        (this\<lparr>head := head other, primaryAttribute := primaryAttribute other,
              secondaryAttribute := secondaryAttribute other, primaryOrder := primaryOrder other,
              secondaryOrder := secondaryOrder other\<rparr>, other\<lparr>head := []\<rparr>)
      else (this, other))"

text \<open>
  \<open>LinkedList::compare\<close>, branch for branch.  When the primary comparison is false the
  code returns the secondary comparison, whether or not the primary attributes are equal
  (the comment says "if the primary attributes are equal"); the final \<open>return false\<close> is
  unreachable.
\<close>

definition compare :: "linked_list \<Rightarrow> contact \<Rightarrow> contact \<Rightarrow> bool" where
  "compare L a b =
     (let primaryComparison =
        (if primaryAttribute L = P_NAME then
           (if primaryOrder L = ASCENDING then name a < name b else name a > name b)
         else
           (if primaryOrder L = ASCENDING then city a < city b else city a > city b))
      in if primaryComparison then True
         else if \<not> primaryComparison then
           (if secondaryAttribute L = S_NAME then
              (if secondaryOrder L = ASCENDING then name a < name b else name a > name b)
            else
              (if secondaryOrder L = ASCENDING then city a < city b else city a > city b))
         else False)"

text \<open>
  \<open>LinkedList::insert\<close>.  A new node goes first when the list is empty or it compares
  before the head; otherwise \<open>current\<close> advances while it has a successor the new contact
  does not compare before (\<open>insertAfter\<close> is that loop on the chain after \<open>current\<close>),
  and the node is linked in after \<open>current\<close>.
\<close>

fun insertAfter :: "(contact \<Rightarrow> contact \<Rightarrow> bool) \<Rightarrow> contact \<Rightarrow> contact list \<Rightarrow> contact list" where
  "insertAfter cmp c [] = [c]"
| "insertAfter cmp c (n # ns) = (if \<not> cmp c n then n # insertAfter cmp c ns else c # n # ns)"

definition ll_insert :: "linked_list \<Rightarrow> contact \<Rightarrow> linked_list" where
  "ll_insert L c =
     (case head L of
        [] \<Rightarrow> L\<lparr>head := [c]\<rparr>
      | h # hs \<Rightarrow>
          if compare L c h then L\<lparr>head := c # h # hs\<rparr>
          else L\<lparr>head := h # insertAfter (compare L) c hs\<rparr>)"

text \<open>\<open>LinkedList::printSorted\<close>: the contacts from the head, or the "empty" message (\<open>None\<close>).\<close>

definition printSorted :: "linked_list \<Rightarrow> contact list option" where
  "printSorted L = (if head L = [] then None else Some (head L))"

text \<open>
  \<open>LinkedList::search\<close>: the loop prints every contact whose primary attribute equals
  the key and sets \<open>found\<close>; the result is the printed contacts and whether the
  "not found" message follows.
\<close>

fun searchLoop ::
  "PrimarySortAttribute \<Rightarrow> string \<Rightarrow> contact list \<Rightarrow> contact list \<Rightarrow> bool \<Rightarrow> contact list \<times> bool" where
  "searchLoop pa k [] out found = (out, found)"
| "searchLoop pa k (c # cs) out found =
     (if pa = P_NAME \<and> name c = k then searchLoop pa k cs (out @ [c]) True
      else if pa = P_CITY \<and> city c = k then searchLoop pa k cs (out @ [c]) True
      else searchLoop pa k cs out found)"

definition ll_search :: "linked_list \<Rightarrow> string \<Rightarrow> contact list \<times> bool" where
  "ll_search L k =
     (let (out, found) = searchLoop (primaryAttribute L) k (head L) [] False in (out, \<not> found))"

text \<open>
  \<open>LinkedList::remove\<close>: the message printed is part of the result.  The head is
  unlinked when it matches; otherwise \<open>removeAfter\<close> is the loop over \<open>current->next\<close>,
  which unlinks the first matching successor (\<open>None\<close>: the loop ran off the end).
\<close>

datatype remove_msg = ListEmpty | Removed | NotFound

definition matchesKey :: "PrimarySortAttribute \<Rightarrow> string \<Rightarrow> contact \<Rightarrow> bool" where
  "matchesKey pa k c \<longleftrightarrow> (pa = P_NAME \<and> name c = k) \<or> (pa = P_CITY \<and> city c = k)"

fun removeAfter :: "PrimarySortAttribute \<Rightarrow> string \<Rightarrow> contact list \<Rightarrow> contact list option" where
  "removeAfter pa k [] = None"
| "removeAfter pa k (n # ns) =
     (if matchesKey pa k n then Some ns
      else (case removeAfter pa k ns of None \<Rightarrow> None | Some ns' \<Rightarrow> Some (n # ns')))"

definition ll_remove :: "linked_list \<Rightarrow> string \<Rightarrow> linked_list \<times> remove_msg" where
  "ll_remove L k =
     (case head L of
        [] \<Rightarrow> (L, ListEmpty)
      | h # hs \<Rightarrow>
          if matchesKey (primaryAttribute L) k h then (L\<lparr>head := hs\<rparr>, Removed)
          else (case removeAfter (primaryAttribute L) k hs of
                  None \<Rightarrow> (L, NotFound)
                | Some hs' \<Rightarrow> (L\<lparr>head := h # hs'\<rparr>, Removed)))"

text \<open>
  \<open>LinkedList::changeSortAttributes\<close>: the four attributes are overwritten, the contacts
  are copied out in list order, the list is cleared and each contact is inserted again.
\<close>

definition changeSortAttributes ::
  "linked_list \<Rightarrow> PrimarySortAttribute \<Rightarrow> SecondarySortAttribute \<Rightarrow> SortOrder \<Rightarrow> SortOrder \<Rightarrow>
   linked_list" where
  "changeSortAttributes L primaryAttr secondaryAttr primaryOrd secondaryOrd =
     (let L = L\<lparr>primaryAttribute := primaryAttr, secondaryAttribute := secondaryAttr,
                primaryOrder := primaryOrd, secondaryOrder := secondaryOrd\<rparr>;
          contactList = head L;
          L = L\<lparr>head := []\<rparr>
      in fold (\<lambda>c L. ll_insert L c) contactList L)"

text \<open>Inserting a vector of contacts in order, as \<open>main\<close> and the tests fill the list.\<close>

definition insertAll :: "linked_list \<Rightarrow> contact list \<Rightarrow> linked_list" where
  "insertAll L cs = fold (\<lambda>c L. ll_insert L c) cs L"

text \<open>
  What the list promises: sortedness on the primary attribute in the primary order.  The
  comparator agrees with that promise when the secondary attribute and order repeat the
  primary ones (\<open>consistent\<close>); otherwise it is the disjunction of two orders.
\<close>

definition primaryKey :: "linked_list \<Rightarrow> contact \<Rightarrow> string" where
  "primaryKey L c = (if primaryAttribute L = P_NAME then name c else city c)"

definition primary_sorted :: "linked_list \<Rightarrow> contact list \<Rightarrow> bool" where
  "primary_sorted L xs =
     (if primaryOrder L = ASCENDING then sorted (map (primaryKey L) xs)
      else sorted_wrt (\<ge>) (map (primaryKey L) xs))"

definition consistent :: "linked_list \<Rightarrow> bool" where
  "consistent L \<longleftrightarrow>
     (primaryAttribute L = P_NAME \<longleftrightarrow> secondaryAttribute L = S_NAME) \<and>
     primaryOrder L = secondaryOrder L"

subsection \<open>Moves\<close>

text \<open>
  Between distinct objects a move hands the chain and all four sort attributes over and
  leaves the source without nodes; \<open>sortedList = LinkedList(...)\<close> in \<open>main\<close> is
  therefore an empty list with the new attributes.
\<close>

lemma ll_move_transfers:
  "ll_move other = (other, other\<lparr>head := []\<rparr>) \<and>
   ll_moveAssign False this other = (other, other\<lparr>head := []\<rparr>) \<and>
   ll_moveAssign True this this = (this, this)"
  by (cases other) (simp add: ll_move_def ll_moveAssign_def)

lemma ll_moveAssign_distinct [simp]: "ll_moveAssign False this other = (other, other\<lparr>head := []\<rparr>)"
  using ll_move_transfers by blast

subsection \<open>Insertion\<close>

lemma insertAfter_split:
  "insertAfter cmp c xs = takeWhile (\<lambda>x. \<not> cmp c x) xs @ c # dropWhile (\<lambda>x. \<not> cmp c x) xs"
  by (induction xs) auto

lemma ll_insert_split:
  "ll_insert L c = L\<lparr>head := takeWhile (\<lambda>x. \<not> compare L c x) (head L) @ c #
                              dropWhile (\<lambda>x. \<not> compare L c x) (head L)\<rparr>"
  by (cases "head L") (simp_all add: ll_insert_def insertAfter_split)

lemma ll_insert_fields [simp]:
  "primaryAttribute (ll_insert L c) = primaryAttribute L"
  "secondaryAttribute (ll_insert L c) = secondaryAttribute L"
  "primaryOrder (ll_insert L c) = primaryOrder L"
  "secondaryOrder (ll_insert L c) = secondaryOrder L"
  by (simp_all add: ll_insert_split)

lemma mset_ll_insert [simp]: "mset (head (ll_insert L c)) = add_mset c (mset (head L))"
proof -
  have "mset (takeWhile P xs @ c # dropWhile P xs) = add_mset c (mset xs)" for P xs
    by (metis add_mset_add_single mset.simps(2) mset_append takeWhile_dropWhile_id union_assoc union_commute)
  then show ?thesis by (simp add: ll_insert_split)
qed

lemma insertAll_fields [simp]:
  "primaryAttribute (insertAll L cs) = primaryAttribute L"
  "secondaryAttribute (insertAll L cs) = secondaryAttribute L"
  "primaryOrder (insertAll L cs) = primaryOrder L"
  "secondaryOrder (insertAll L cs) = secondaryOrder L"
  unfolding insertAll_def by (induction cs arbitrary: L) auto

lemma insertAll_mset [simp]: "mset (head (insertAll L cs)) = mset (head L) + mset cs"
  unfolding insertAll_def by (induction cs arbitrary: L) auto

lemma insertAll_snoc: "insertAll L (cs @ [c]) = ll_insert (insertAll L cs) c"
  by (simp add: insertAll_def)

lemma primary_sorted_attrs:
  "primaryAttribute L = primaryAttribute L' \<Longrightarrow> primaryOrder L = primaryOrder L' \<Longrightarrow>
   primary_sorted L = primary_sorted L'"
  by (simp add: primary_sorted_def primaryKey_def[abs_def] fun_eq_iff)

lemma consistent_attrs:
  "primaryAttribute L = primaryAttribute L' \<Longrightarrow> secondaryAttribute L = secondaryAttribute L' \<Longrightarrow>
   primaryOrder L = primaryOrder L' \<Longrightarrow> secondaryOrder L = secondaryOrder L' \<Longrightarrow>
   consistent L = consistent L'"
  by (simp add: consistent_def)

lemma sorted_insert_strict_weak:
  assumes asym: "\<And>x y. cmp x y \<Longrightarrow> \<not> cmp y x"
    and ntrans: "\<And>x y z. \<not> cmp y x \<Longrightarrow> \<not> cmp z y \<Longrightarrow> \<not> cmp z x"
  shows "sorted_wrt (\<lambda>x y. \<not> cmp y x) xs \<Longrightarrow>
         sorted_wrt (\<lambda>x y. \<not> cmp y x) (takeWhile (\<lambda>x. \<not> cmp c x) xs @ c # dropWhile (\<lambda>x. \<not> cmp c x) xs)"
proof (induction xs)
  case (Cons x xs)
  show ?case
  proof (cases "cmp c x")
    case True
    have "\<forall>y\<in>set xs. \<not> cmp y c" using Cons.prems asym[OF True] ntrans[of x c] by auto
    with True Cons.prems asym show ?thesis by auto
  next
    case False
    have "set (takeWhile (\<lambda>x. \<not> cmp c x) xs @ c # dropWhile (\<lambda>x. \<not> cmp c x) xs) = insert c (set xs)"
    proof -
      have "set (takeWhile (\<lambda>x. \<not> cmp c x) xs) \<union> set (dropWhile (\<lambda>x. \<not> cmp c x) xs) = set xs"
        by (metis set_append takeWhile_dropWhile_id)
      then show ?thesis by auto
    qed
    with Cons False show ?thesis by auto
  qed
qed simp

lemma compare_consistent:
  "consistent L \<Longrightarrow> compare L a b \<longleftrightarrow>
     (if primaryOrder L = ASCENDING then primaryKey L a < primaryKey L b else primaryKey L a > primaryKey L b)"
  by (cases "primaryAttribute L"; cases "secondaryAttribute L"; cases "primaryOrder L")
     (auto simp: compare_def consistent_def primaryKey_def)

lemma primary_sorted_compare:
  "consistent L \<Longrightarrow> primary_sorted L xs \<longleftrightarrow> sorted_wrt (\<lambda>x y. \<not> compare L y x) xs"
  by (cases "primaryOrder L") (auto simp: primary_sorted_def compare_consistent sorted_wrt_map not_less)

lemma ll_insert_primary_sorted:
  assumes "consistent L" "primary_sorted L (head L)"
  shows "primary_sorted L (head (ll_insert L c))"
proof -
  have "primary_sorted (ll_insert L c) xs = primary_sorted L xs" for xs
    by (simp add: primary_sorted_def primaryKey_def[abs_def])
  moreover have "sorted_wrt (\<lambda>x y. \<not> compare L y x) (head (ll_insert L c))"
    unfolding ll_insert_split using assms
    by (simp add: primary_sorted_compare) (rule sorted_insert_strict_weak; auto simp: compare_consistent)
  ultimately show ?thesis using assms(1) by (simp add: primary_sorted_compare)
qed

lemma insertAll_sorted:
  "consistent L \<Longrightarrow> primary_sorted L (head L) \<Longrightarrow> primary_sorted L (head (insertAll L cs))"
proof (induction cs rule: rev_induct)
  case Nil then show ?case by (simp add: insertAll_def)
next
  case (snoc c cs)
  have f: "consistent (insertAll L cs) = consistent L" "primary_sorted (insertAll L cs) = primary_sorted L"
    by (rule consistent_attrs; simp) (rule primary_sorted_attrs; simp)
  from snoc have "primary_sorted (insertAll L cs) (head (ll_insert (insertAll L cs) c))"
    by (intro ll_insert_primary_sorted) (simp_all add: f)
  then show ?case by (simp add: insertAll_snoc f)
qed

subsection \<open>Search and removal\<close>

lemma searchLoop_filter:
  "searchLoop pa k xs out found =
     (out @ filter (matchesKey pa k) xs, found \<or> filter (matchesKey pa k) xs \<noteq> [])"
  by (induction xs arbitrary: out found) (auto simp: matchesKey_def)

lemma removeAfter_first:
  "removeAfter pa k xs =
     (if list_ex (matchesKey pa k) xs
      then Some (takeWhile (\<lambda>x. \<not> matchesKey pa k x) xs @ tl (dropWhile (\<lambda>x. \<not> matchesKey pa k x) xs))
      else None)"
  by (induction xs) auto

subsection \<open>Properties\<close>

text \<open>
  C20.  \<open>LinkedList::insert\<close> links the new contact in before the first node it compares
  less than (by \<open>compare\<close>) and after every node before that one, leaving the other nodes
  and the sort attributes as they were.
\<close>
theorem ll_insert_position:
  "\<exists>pre suf. head L = pre @ suf \<and> ll_insert L c = L\<lparr>head := pre @ c # suf\<rparr> \<and>
     (\<forall>x\<in>set pre. \<not> compare L c x) \<and> (suf = [] \<or> compare L c (hd suf))"
proof (intro exI conjI)
  let ?P = "\<lambda>x. \<not> compare L c x"
  show "head L = takeWhile ?P (head L) @ dropWhile ?P (head L)" by simp
  show "ll_insert L c = L\<lparr>head := takeWhile ?P (head L) @ c # dropWhile ?P (head L)\<rparr>"
    by (rule ll_insert_split)
  show "\<forall>x\<in>set (takeWhile ?P (head L)). \<not> compare L c x" by (auto dest: set_takeWhileD)
  show "dropWhile ?P (head L) = [] \<or> compare L c (hd (dropWhile ?P (head L)))"
    using hd_dropWhile[of ?P "head L"] by auto
qed

theorem ll_insert_position_witness:
  "\<exists>pre suf. head (insertAll (LinkedList P_NAME S_CITY ASCENDING ASCENDING) (take 3 sampleContacts)) = pre @ suf \<and>
     ll_insert (insertAll (LinkedList P_NAME S_CITY ASCENDING ASCENDING) (take 3 sampleContacts)) (sampleContacts ! 3) =
       (insertAll (LinkedList P_NAME S_CITY ASCENDING ASCENDING) (take 3 sampleContacts))\<lparr>head := pre @ sampleContacts ! 3 # suf\<rparr> \<and>
     (\<forall>x\<in>set pre. \<not> compare (insertAll (LinkedList P_NAME S_CITY ASCENDING ASCENDING) (take 3 sampleContacts)) (sampleContacts ! 3) x) \<and>
     (suf = [] \<or> compare (insertAll (LinkedList P_NAME S_CITY ASCENDING ASCENDING) (take 3 sampleContacts)) (sampleContacts ! 3) (hd suf))"
  by (rule ll_insert_position)

text \<open>
  C21.  When the secondary attribute and order repeat the primary ones, \<open>compare\<close> is
  a strict order on the primary attribute, and \<open>insert\<close> keeps a list that is sorted on
  the primary attribute (ascending or descending) sorted, adding exactly the new contact.
\<close>
theorem ll_insert_sorted:
  assumes "consistent L" "primary_sorted L (head L)"
  shows "primary_sorted L (head (ll_insert L c)) \<and> mset (head (ll_insert L c)) = add_mset c (mset (head L))"
  using ll_insert_primary_sorted[OF assms] by simp

theorem ll_insert_sorted_witness:
  "let L = (LinkedList P_CITY S_CITY DESCENDING DESCENDING)\<lparr>head := [sampleContacts ! 1, sampleContacts ! 2]\<rparr>
   in primary_sorted L (head (ll_insert L (sampleContacts ! 0))) \<and>
      map contact_id (head (ll_insert L (sampleContacts ! 0))) = [2, 1, 3]"
proof -
  let ?L = "(LinkedList P_CITY S_CITY DESCENDING DESCENDING)\<lparr>head := [sampleContacts ! 1, sampleContacts ! 2]\<rparr>"
  have h: "consistent ?L" "primary_sorted ?L (head ?L)"
    by (simp_all add: consistent_def LinkedList_def primary_sorted_def primaryKey_def sampleContacts_def)
  have "map contact_id (head (ll_insert ?L (sampleContacts ! 0))) = [2, 1, 3]"
    by (simp add: ll_insert_def compare_def LinkedList_def sampleContacts_def)
  with ll_insert_sorted[OF h, of "sampleContacts ! 0"] show ?thesis by simp
qed


text \<open>
  C23.  \<open>LinkedList::search\<close> prints exactly the contacts whose primary attribute
  equals the key, in list order, and prints the "not found" message exactly when there
  is none.
\<close>
theorem ll_search_spec:
  "ll_search L k = (filter (matchesKey (primaryAttribute L) k) (head L),
                    filter (matchesKey (primaryAttribute L) k) (head L) = [])"
  by (simp add: ll_search_def searchLoop_filter)

text \<open>
  C24.  \<open>LinkedList::remove\<close> reports an empty list, or unlinks the first contact whose
  primary attribute equals the key (only that one) and reports success, or leaves the
  list unchanged and reports that nothing was found.
\<close>
theorem ll_remove_spec:
  "ll_remove L k =
     (if head L = [] then (L, ListEmpty)
      else if list_ex (matchesKey (primaryAttribute L) k) (head L)
      then (L\<lparr>head := takeWhile (\<lambda>x. \<not> matchesKey (primaryAttribute L) k x) (head L) @
                      tl (dropWhile (\<lambda>x. \<not> matchesKey (primaryAttribute L) k x) (head L))\<rparr>, Removed)
      else (L, NotFound))"
  by (cases "head L") (auto simp: ll_remove_def removeAfter_first)

theorem ll_remove_spec_witness:
  "ll_remove (insertAll (LinkedList P_NAME S_CITY ASCENDING ASCENDING) sampleContacts) ''Bob'' =
     ((LinkedList P_NAME S_CITY ASCENDING ASCENDING)\<lparr>head := [sampleContacts ! 3, sampleContacts ! 1, sampleContacts ! 0]\<rparr>,
      Removed)"
  using ll_remove_spec[of "insertAll (LinkedList P_NAME S_CITY ASCENDING ASCENDING) sampleContacts" "''Bob''"]
  by (simp add: insertAll_def ll_insert_def compare_def LinkedList_def sampleContacts_def matchesKey_def)

text \<open>
  C25.  \<open>LinkedList::changeSortAttributes\<close> keeps the same contacts, installs the new
  attributes, and when the new attributes are consistent leaves the list sorted on the
  new primary attribute in the new order.
\<close>
theorem changeSortAttributes_spec:
  "let L' = changeSortAttributes L pa sa po so
   in mset (head L') = mset (head L) \<and>
      primaryAttribute L' = pa \<and> secondaryAttribute L' = sa \<and> primaryOrder L' = po \<and> secondaryOrder L' = so \<and>
      (consistent L' \<longrightarrow> primary_sorted L' (head L'))"
proof -
  let ?L0 = "L\<lparr>primaryAttribute := pa, secondaryAttribute := sa, primaryOrder := po, secondaryOrder := so, head := []\<rparr>"
  have eq: "changeSortAttributes L pa sa po so = insertAll ?L0 (head L)"
    by (simp add: changeSortAttributes_def insertAll_def)
  have "consistent ?L0 \<Longrightarrow> primary_sorted ?L0 (head (insertAll ?L0 (head L)))"
    by (rule insertAll_sorted) (simp_all add: primary_sorted_def)
  moreover have "consistent (insertAll ?L0 (head L)) = consistent ?L0"
    "primary_sorted (insertAll ?L0 (head L)) = primary_sorted ?L0"
    by (rule consistent_attrs; simp) (rule primary_sorted_attrs; simp)
  ultimately show ?thesis by (simp add: eq Let_def)
qed

theorem changeSortAttributes_spec_witness:
  "let L' = changeSortAttributes (insertAll (LinkedList P_NAME S_CITY ASCENDING ASCENDING) sampleContacts)
              P_CITY S_CITY DESCENDING DESCENDING
   in primary_sorted L' (head L') \<and> map contact_id (head L') = [2, 4, 1, 3]"
proof -
  let ?L = "insertAll (LinkedList P_NAME S_CITY ASCENDING ASCENDING) sampleContacts"
  let ?L' = "changeSortAttributes ?L P_CITY S_CITY DESCENDING DESCENDING"
  have c: "consistent ?L'" using changeSortAttributes_spec[of ?L P_CITY S_CITY DESCENDING DESCENDING]
    by (simp add: Let_def consistent_def)
  have "map contact_id (head ?L') = [2, 4, 1, 3]"
    by (simp add: changeSortAttributes_def insertAll_def ll_insert_def compare_def LinkedList_def sampleContacts_def)
  with c changeSortAttributes_spec[of ?L P_CITY S_CITY DESCENDING DESCENDING] show ?thesis by (simp add: Let_def)
qed

end
