(* ===== verification/File_Format.thy ===== *)
theory File_Format
  imports Contact_Book Linked_List
begin

text \<open>
  The CSV persistence of \<open>src/contact.cpp\<close> (\<open>saveContactsToFile\<close>,
  \<open>loadContactsFromFile\<close>) and of \<open>src/linked_list.cpp\<close> (\<open>LinkedList::saveToFile\<close>,
  \<open>LinkedList::loadFromFile\<close>).  A file is its content, a string; the streams' open
  failures are the branches that print an error and change nothing.  Each contact is the
  line \<open>id,name,phone,city\<close>.  Reading splits the content as \<open>std::getline\<close> does and
  parses each line with \<open>find\<close>, \<open>substr\<close> and \<open>std::stoi\<close>; an exception of
  \<open>std::stoi\<close> is not caught anywhere, so it ends the program, the result \<open>None\<close>.
\<close>

subsection \<open>Writing\<close>

text \<open>\<open>operator<<\<close> on an \<open>int\<close>: decimal digits, with a minus sign when negative.\<close>

definition digit_char :: "nat \<Rightarrow> char" where
  "digit_char d = char_of (48 + d)"

fun nat_digits :: "nat \<Rightarrow> string" where
  "nat_digits n = (if n < 10 then [digit_char n] else nat_digits (n div 10) @ [digit_char (n mod 10)])"

declare nat_digits.simps [simp del]

definition int_to_string :: "int \<Rightarrow> string" where
  "int_to_string i = (if i < 0 then CHR ''-'' # nat_digits (nat (- i)) else nat_digits (nat i))"

definition newline :: char where
  "newline = CHR 0x0A"

text \<open>
  The line written for one contact (\<open>lineText\<close>, then \<open>"\n"\<close>), and the whole file
  (\<open>saveContactsToFile\<close>).
\<close>

definition lineText :: "contact \<Rightarrow> string" where
  "lineText c = int_to_string (contact_id c) @ '','' @ name c @ '','' @ phoneNumber c @ '','' @ city c"

definition contactLine :: "contact \<Rightarrow> string" where
  "contactLine c = lineText c @ [newline]"

definition saveContactsToFile :: "contact list \<Rightarrow> string" where
  "saveContactsToFile contacts = concat (map contactLine contacts)"

text \<open>\<open>LinkedList::saveToFile\<close>: the same lines, in list order.\<close>

definition saveToFile :: "linked_list \<Rightarrow> string" where
  "saveToFile L = concat (map contactLine (head L))"

subsection \<open>Reading\<close>

text \<open>
  \<open>std::getline\<close> in a loop: each line ends at a newline, which is dropped; a last line
  without a newline is still read, but at the end of the input with nothing extracted
  the read fails and the loop ends.
\<close>

fun getlines_acc :: "string \<Rightarrow> string \<Rightarrow> string list" where
  "getlines_acc cur [] = (if cur = [] then [] else [cur])"
| "getlines_acc cur (ch # s) =
     (if ch = newline then cur # getlines_acc [] s else getlines_acc (cur @ [ch]) s)"

definition getlines :: "string \<Rightarrow> string list" where
  "getlines s = getlines_acc [] s"

text \<open>
  \<open>std::string::find(ch, pos)\<close>: the first position at or after \<open>pos\<close> holding \<open>ch\<close>;
  \<open>None\<close> is \<open>npos\<close>.  \<open>substr(pos, n)\<close> takes at most \<open>n\<close> characters from \<open>pos\<close>
  (the positions used below are never past the end, so it does not throw).
\<close>

fun find_from :: "char \<Rightarrow> string \<Rightarrow> nat \<Rightarrow> nat option" where
  "find_from ch [] pos = None"
| "find_from ch (x # xs) pos =
     (if pos = 0 then (if x = ch then Some 0 else map_option Suc (find_from ch xs 0))
      else map_option Suc (find_from ch xs (pos - 1)))"

definition substr :: "string \<Rightarrow> nat \<Rightarrow> nat \<Rightarrow> string" where
  "substr s pos n = take n (drop pos s)"

text \<open>
  \<open>std::stoi\<close> (base 10): leading white space is skipped, then an optional sign and at
  least one digit are read, and the rest of the string is ignored.  No digit throws
  \<open>std::invalid_argument\<close>; a value outside \<open>int\<close> throws \<open>std::out_of_range\<close>.
\<close>

definition is_space :: "char \<Rightarrow> bool" where
  "is_space c \<longleftrightarrow> c \<in> {CHR '' '', CHR 0x09, CHR 0x0A, CHR 0x0B, CHR 0x0C, CHR 0x0D}"

definition digits_value :: "string \<Rightarrow> nat" where
  "digits_value ds = foldl (\<lambda>acc d. 10 * acc + (of_char d - 48)) 0 ds"

definition stoi :: "string \<Rightarrow> int option" where
  "stoi s =
     (let s = dropWhile is_space s;
          (neg, s) = (case s of c # r \<Rightarrow> if c = CHR ''-'' then (True, r)
                                        else if c = CHR ''+'' then (False, r) else (False, s)
                              | [] \<Rightarrow> (False, s));
          ds = takeWhile is_digit s;
          v = (if neg then - int (digits_value ds) else int (digits_value ds))
      in if ds = [] then None
         else if v < - (2 ^ 31) \<or> v \<ge> 2 ^ 31 then None
         else Some v)"

text \<open>
  The body of both reading loops for one line: the three commas, then the fields.
  \<open>pos1 + 1\<close> and \<open>pos2 + 1\<close> are computed on \<open>size_t\<close>, so \<open>npos + 1\<close> wraps to
  \<open>0\<close>; the wrapped value is only used for a search whose result is discarded.  The
  result is \<open>Inl ()\<close> for a line without three commas (skipped with a message), \<open>Inr None\<close>
  when \<open>std::stoi\<close> throws, and \<open>Inr (Some c)\<close> for a parsed contact.
\<close>

definition parseLine :: "string \<Rightarrow> unit + contact option" where
  "parseLine line =
     (let pos1 = find_from (CHR '','') line 0;
          pos2 = find_from (CHR '','') line (case pos1 of None \<Rightarrow> 0 | Some p \<Rightarrow> p + 1);
          pos3 = find_from (CHR '','') line (case pos2 of None \<Rightarrow> 0 | Some p \<Rightarrow> p + 1)
      in case (pos1, pos2, pos3) of
           (Some p1, Some p2, Some p3) \<Rightarrow>
             Inr (map_option (\<lambda>i. \<lparr>contact_id = i,
                                    name = substr line (p1 + 1) (p2 - p1 - 1),
                                    phoneNumber = substr line (p2 + 1) (p3 - p2 - 1),
                                    city = drop (p3 + 1) line\<rparr>)
                    (stoi (substr line 0 p1)))
         | _ \<Rightarrow> Inl ())"

text \<open>
  The counter update after each parsed contact:
  \<open>if (contact.id >= global_id_counter) global_id_counter = contact.id + 1\<close>.  The sum is
  computed on \<open>int\<close> here; \<open>counter_fits\<close> below says when it is representable.
\<close>

definition bumpCounter :: "int \<Rightarrow> int \<Rightarrow> int" where
  "bumpCounter i counter = (if i \<ge> counter then i + 1 else counter)"

text \<open>
  \<open>loadContactsFromFile\<close>: the vector is cleared, then each parsed contact updates the
  counter and is appended.  The state is the vector and the counter.
\<close>

fun loadLines :: "string list \<Rightarrow> contact list \<times> int \<Rightarrow> (contact list \<times> int) option" where
  "loadLines [] st = Some st"
| "loadLines (line # ls) (contacts, counter) =
     (case parseLine line of
        Inl _ \<Rightarrow> loadLines ls (contacts, counter)
      | Inr None \<Rightarrow> None
      | Inr (Some c) \<Rightarrow> loadLines ls (contacts @ [c], bumpCounter (contact_id c) counter))"

definition loadContactsFromFile :: "string option \<Rightarrow> contact list \<Rightarrow> int \<Rightarrow> (contact list \<times> int) option" where
  "loadContactsFromFile file contacts counter =
     (case file of
        None \<Rightarrow> Some (contacts, counter)
      | Some content \<Rightarrow> loadLines (getlines content) ([], counter))"

text \<open>
  \<open>LinkedList::loadFromFile\<close>: the same loop, inserting each contact into the list; the
  list is not cleared first.
\<close>

fun loadListLines :: "string list \<Rightarrow> linked_list \<times> int \<Rightarrow> (linked_list \<times> int) option" where
  "loadListLines [] st = Some st"
| "loadListLines (line # ls) (L, counter) =
     (case parseLine line of
        Inl _ \<Rightarrow> loadListLines ls (L, counter)
      | Inr None \<Rightarrow> None
      | Inr (Some c) \<Rightarrow> loadListLines ls (ll_insert L c, bumpCounter (contact_id c) counter))"

definition loadFromFile :: "string option \<Rightarrow> linked_list \<Rightarrow> int \<Rightarrow> (linked_list \<times> int) option" where
  "loadFromFile file L counter =
     (case file of
        None \<Rightarrow> Some (L, counter)
      | Some content \<Rightarrow> loadListLines (getlines content) (L, counter))"

text \<open>
  The contacts the line format can carry: no comma in the name and phone number and no
  newline anywhere (the city may hold commas, since it is everything after the third),
  and an id that is a C++ \<open>int\<close>.
\<close>

definition csv_safe :: "contact \<Rightarrow> bool" where
  "csv_safe c \<longleftrightarrow>
     CHR '','' \<notin> set (name c) \<and> CHR '','' \<notin> set (phoneNumber c) \<and>
     newline \<notin> set (name c) \<and> newline \<notin> set (phoneNumber c) \<and> newline \<notin> set (city c) \<and>
     - (2 ^ 31) \<le> contact_id c \<and> contact_id c < 2 ^ 31"

definition counter_fits :: "int \<Rightarrow> bool" where
  "counter_fits counter \<longleftrightarrow> - (2 ^ 31) \<le> counter \<and> counter < 2 ^ 31"

subsection \<open>Printing and parsing numbers\<close>

lemma digit_char_digit: "d < 10 \<Longrightarrow> is_digit (digit_char d) \<and> of_char (digit_char d) = 48 + d"
  by (auto simp: is_digit_def digit_char_def less_eq_char_def)

lemma nat_digits_digits: "list_all is_digit (nat_digits n) \<and> nat_digits n \<noteq> []"
proof (induction n rule: nat_digits.induct)
  case (1 n)
  show ?case
  proof (cases "n < 10")
    case True
    then show ?thesis by (simp add: nat_digits.simps[of n] digit_char_digit)
  next
    case False
    with "1.IH" show ?thesis by (simp add: nat_digits.simps[of n] digit_char_digit)
  qed
qed

lemma digits_value_snoc: "digits_value (xs @ [d]) = 10 * digits_value xs + (of_char d - 48)"
  by (simp add: digits_value_def)

lemma digits_value_nat_digits: "digits_value (nat_digits n) = n"
proof (induction n rule: nat_digits.induct)
  case (1 n)
  show ?case
  proof (cases "n < 10")
    case True
    then show ?thesis by (subst nat_digits.simps) (simp add: digits_value_def digit_char_digit)
  next
    case False
    then have "digits_value (nat_digits n) = 10 * (n div 10) + n mod 10"
      using "1.IH" by (subst nat_digits.simps) (simp add: digits_value_snoc digit_char_digit)
    then show ?thesis by simp
  qed
qed

lemma int_to_string_chars: "c \<in> set (int_to_string i) \<Longrightarrow> is_digit c \<or> c = CHR ''-''"
  using nat_digits_digits[of "nat (- i)"] nat_digits_digits[of "nat i"]
  by (auto simp: int_to_string_def list_all_iff split: if_splits)

lemma stoi_int_to_string:
  "- (2 ^ 31) \<le> i \<Longrightarrow> i < 2 ^ 31 \<Longrightarrow> stoi (int_to_string i) = Some i"
proof -
  assume lo: "- (2 ^ 31) \<le> i" and hi: "i < 2 ^ 31"
  obtain d ds where nd: "nat_digits (nat \<bar>i\<bar>) = d # ds" using nat_digits_digits by (cases "nat_digits (nat \<bar>i\<bar>)") auto
  have dig: "list_all is_digit (d # ds)" using nat_digits_digits[of "nat \<bar>i\<bar>"] nd by simp
  have nsp: "\<not> is_space d" using dig by (auto simp: is_space_def is_digit_def)
  have tw: "takeWhile is_digit (d # ds) = d # ds" using dig by (simp add: list_all_iff)
  have val: "digits_value (d # ds) = nat \<bar>i\<bar>" using digits_value_nat_digits[of "nat \<bar>i\<bar>"] nd by simp
  have "d \<noteq> CHR ''-''" "d \<noteq> CHR ''+''" using dig by (auto simp: is_digit_def)
  show ?thesis
  proof (cases "i < 0")
    case True
    then have "int_to_string i = CHR ''-'' # d # ds" using nd by (simp add: int_to_string_def)
    with True lo tw val show ?thesis by (simp add: stoi_def is_space_def)
  next
    case False
    then have "int_to_string i = d # ds" using nd by (simp add: int_to_string_def)
    with False hi tw val nsp \<open>d \<noteq> CHR ''-''\<close> \<open>d \<noteq> CHR ''+''\<close> show ?thesis by (simp add: stoi_def)
  qed
qed

subsection \<open>Lines\<close>

lemma find_from_shift:
  "find_from ch (xs @ ys) (length xs + p) = map_option ((+) (length xs)) (find_from ch ys p)"
  by (induction xs) (simp_all add: option.map_comp comp_def option.map_ident)

lemma find_from_first:
  "ch \<notin> set xs \<Longrightarrow> find_from ch (xs @ ch # ys) 0 = Some (length xs)"
  by (induction xs) auto

lemma parseLine_lineText:
  assumes "csv_safe c"
  shows "parseLine (lineText c) = Inr (Some c)"
proof -
  let ?s = "int_to_string (contact_id c)" and ?n = "name c" and ?p = "phoneNumber c" and ?t = "city c"
  have ns: "CHR '','' \<notin> set ?s" using int_to_string_chars[of _ "contact_id c"] by (force simp: is_digit_def)
  from assms have nn: "CHR '','' \<notin> set ?n" and np: "CHR '','' \<notin> set ?p" by (simp_all add: csv_safe_def)
  have l: "lineText c = ?s @ CHR '','' # ?n @ CHR '','' # ?p @ CHR '','' # ?t" by (simp add: lineText_def)
  have p1: "find_from CHR '','' (lineText c) 0 = Some (length ?s)"
    unfolding l by (rule find_from_first[OF ns])
  have p2: "find_from CHR '','' (lineText c) (length ?s + 1) = Some (length ?s + 1 + length ?n)"
    using find_from_shift[of _ "?s @ [CHR '','']" "?n @ CHR '','' # ?p @ CHR '','' # ?t" 0] find_from_first[OF nn]
    unfolding l by simp
  have p3: "find_from CHR '','' (lineText c) (length ?s + 1 + length ?n + 1) =
            Some (length ?s + 1 + length ?n + 1 + length ?p)"
    using find_from_shift[of _ "?s @ CHR '','' # ?n @ [CHR '','']" "?p @ CHR '','' # ?t" 0] find_from_first[OF np]
    unfolding l by simp
  have id: "stoi ?s = Some (contact_id c)" using assms by (simp add: csv_safe_def stoi_int_to_string)
  have f0: "substr (lineText c) 0 (length ?s) = ?s"
    and f1: "substr (lineText c) (length ?s + 1) (length ?s + 1 + length ?n - length ?s - 1) = ?n"
    and f2: "substr (lineText c) (length ?s + 1 + length ?n + 1)
               (length ?s + 1 + length ?n + 1 + length ?p - (length ?s + 1 + length ?n) - 1) = ?p"
    by (simp_all add: substr_def l)
  have "lineText c = (?s @ CHR '','' # ?n @ CHR '','' # ?p @ [CHR '','']) @ ?t" by (simp add: l)
  then have "drop (length (?s @ CHR '','' # ?n @ CHR '','' # ?p @ [CHR '',''])) (lineText c) = ?t"
    by (metis append_eq_conv_conj)
  then have f3: "drop (length ?s + 1 + length ?n + 1 + length ?p + 1) (lineText c) = ?t" by (simp add: add.assoc)
  have "parseLine (lineText c) =
          Inr (Some \<lparr>contact_id = contact_id c, name = ?n, phoneNumber = ?p, city = ?t\<rparr>)"
    unfolding parseLine_def Let_def using p1 p2 p3
    by (simp only: option.case prod.case f0 f1 f2 f3 id option.map)
  then show ?thesis by simp
qed

lemma getlines_acc_line:
  "newline \<notin> set l \<Longrightarrow> getlines_acc cur (l @ newline # s) = (cur @ l) # getlines_acc [] s"
  by (induction l arbitrary: cur) auto

lemma getlines_lines:
  "\<forall>l\<in>set ls. newline \<notin> set l \<Longrightarrow> getlines (concat (map (\<lambda>l. l @ [newline]) ls)) = ls"
  unfolding getlines_def by (induction ls) (simp_all add: getlines_acc_line)

lemma newline_lineText: "csv_safe c \<Longrightarrow> newline \<notin> set (lineText c)"
  using int_to_string_chars[of newline "contact_id c"]
  by (auto simp: lineText_def csv_safe_def newline_def is_digit_def)

lemma loadLines_lineText:
  "list_all csv_safe cs \<Longrightarrow>
   loadLines (map lineText cs) (acc, counter) = Some (acc @ cs, fold (\<lambda>c. bumpCounter (contact_id c)) cs counter)"
  by (induction cs arbitrary: acc counter) (simp_all add: parseLine_lineText)

lemma save_lines: "concat (map contactLine cs) = concat (map (\<lambda>l. l @ [newline]) (map lineText cs))"
proof -
  have "contactLine = (\<lambda>c. lineText c @ [newline])" by (rule ext) (rule contactLine_def)
  then show ?thesis by (simp add: comp_def)
qed

lemma getlines_save:
  "list_all csv_safe cs \<Longrightarrow> getlines (concat (map contactLine cs)) = map lineText cs"
  unfolding save_lines by (rule getlines_lines) (auto simp: list_all_iff newline_lineText)

subsection \<open>Loading\<close>

lemma stoi_range: "stoi s = Some i \<Longrightarrow> - (2 ^ 31) \<le> i \<and> i < 2 ^ 31"
  unfolding stoi_def Let_def by (auto split: prod.splits if_splits)

lemma parseLine_Some:
  "parseLine l = Inr (Some c) \<Longrightarrow> \<exists>s. stoi s = Some (contact_id c)"
  unfolding parseLine_def Let_def by (auto split: option.splits)

lemma parseLine_range:
  "parseLine l = Inr (Some c) \<Longrightarrow> - (2 ^ 31) \<le> contact_id c \<and> contact_id c < 2 ^ 31"
  using parseLine_Some stoi_range by blast

lemma loadLines_None:
  "loadLines ls st = None \<longleftrightarrow> list_ex (\<lambda>l. parseLine l = Inr None) ls"
proof (induction ls arbitrary: st)
  case (Cons l ls)
  obtain acc counter where st: "st = (acc, counter)" by (cases st)
  show ?case unfolding st by (cases "parseLine l") (auto simp: Cons.IH split: option.splits)
qed simp

lemma loadLines_Some:
  "loadLines ls (acc, counter) = Some (cs, counter') \<Longrightarrow>
   \<exists>new. cs = acc @ new \<and> list_all (\<lambda>c. - (2 ^ 31) \<le> contact_id c \<and> contact_id c < 2 ^ 31) new \<and>
         counter' = fold (\<lambda>c. bumpCounter (contact_id c)) new counter"
proof (induction ls arbitrary: acc counter)
  case (Cons l ls)
  show ?case
  proof (cases "parseLine l")
    case (Inl u)
    with Cons show ?thesis by simp
  next
    case (Inr r)
    with Cons.prems obtain c where r: "r = Some c"
      and rec: "loadLines ls (acc @ [c], bumpCounter (contact_id c) counter) = Some (cs, counter')"
      by (cases r) auto
    from Cons.IH[OF rec] obtain new where "cs = acc @ c # new"
      "list_all (\<lambda>c. - (2 ^ 31) \<le> contact_id c \<and> contact_id c < 2 ^ 31) new"
      "counter' = fold (\<lambda>c. bumpCounter (contact_id c)) new (bumpCounter (contact_id c) counter)" by auto
    with parseLine_range[of l c] Inr r show ?thesis by (intro exI[of _ "c # new"]) simp
  qed
qed simp

lemma fold_bump_ge: "counter \<le> fold (\<lambda>c. bumpCounter (contact_id c)) cs counter"
proof (induction cs arbitrary: counter)
  case (Cons c cs)
  have "counter \<le> bumpCounter (contact_id c) counter" by (simp add: bumpCounter_def)
  with Cons.IH[of "bumpCounter (contact_id c) counter"] show ?case by simp
qed simp

lemma fold_bump_gt: "list_all (\<lambda>c. contact_id c < fold (\<lambda>c. bumpCounter (contact_id c)) cs counter) cs"
proof (induction cs arbitrary: counter)
  case (Cons c cs)
  have "contact_id c < bumpCounter (contact_id c) counter" by (simp add: bumpCounter_def)
  with fold_bump_ge[of "bumpCounter (contact_id c) counter" cs] Cons.IH[of "bumpCounter (contact_id c) counter"]
  show ?case by simp
qed simp

lemma fold_bump_fits:
  "counter < 2 ^ 31 \<Longrightarrow>
   fold (\<lambda>c. bumpCounter (contact_id c)) cs counter < 2 ^ 31 \<longleftrightarrow> list_all (\<lambda>c. contact_id c < 2 ^ 31 - 1) cs"
proof (induction cs arbitrary: counter)
  case (Cons c cs)
  let ?b = "bumpCounter (contact_id c) counter"
  show ?case
  proof (cases "?b < 2 ^ 31")
    case True
    then have "contact_id c < 2 ^ 31 - 1" by (auto simp: bumpCounter_def split: if_splits)
    with Cons.IH[OF True] show ?thesis by simp
  next
    case False
    then have "\<not> contact_id c < 2 ^ 31 - 1" using Cons.prems by (auto simp: bumpCounter_def split: if_splits)
    moreover have "\<not> fold (\<lambda>c. bumpCounter (contact_id c)) cs ?b < 2 ^ 31"
      using False fold_bump_ge[of ?b cs] by linarith
    ultimately show ?thesis by simp
  qed
qed simp

lemma loadListLines_lineText:
  "list_all csv_safe cs \<Longrightarrow>
   loadListLines (map lineText cs) (L, counter) = Some (insertAll L cs, fold (\<lambda>c. bumpCounter (contact_id c)) cs counter)"
  by (induction cs arbitrary: L counter) (simp_all add: parseLine_lineText insertAll_def)

subsection \<open>Properties\<close>

text \<open>
  C30.  Round trip: for contacts the line format can carry (no comma in the name and
  phone number, no newline, an \<open>int\<close> id), loading the file \<open>saveContactsToFile\<close>
  wrote gives back the same vector, in the same order, whatever the vector held before;
  the id counter ends above every loaded id (or stays where it was).
\<close>

theorem load_save_roundtrip:
  assumes "list_all csv_safe cs"
  shows "loadContactsFromFile (Some (saveContactsToFile cs)) old counter =
           Some (cs, fold (\<lambda>c. bumpCounter (contact_id c)) cs counter)"
  using getlines_save[OF assms] loadLines_lineText[OF assms, of "[]" counter]
  by (simp add: loadContactsFromFile_def saveContactsToFile_def)

theorem load_save_roundtrip_witness:
  "loadContactsFromFile (Some (saveContactsToFile sampleContacts)) [] 1 = Some (sampleContacts, 5)"
proof -
  have h: "list_all csv_safe sampleContacts"
    by (simp add: sampleContacts_def csv_safe_def newline_def)
  show ?thesis using load_save_roundtrip[OF h, of "[]" 1]
    by (simp add: sampleContacts_def bumpCounter_def)
qed

text \<open>
  C31.  \<open>LinkedList::loadFromFile\<close> does not clear the list: loading a file
  \<open>saveToFile\<close> wrote inserts the saved contacts into the contacts already present, so
  loading a list's own file back into it holds every contact twice.
\<close>

theorem list_load_appends:
  assumes "list_all csv_safe (head L)"
  shows "loadFromFile (Some (saveToFile L)) L' counter =
           Some (insertAll L' (head L), fold (\<lambda>c. bumpCounter (contact_id c)) (head L) counter)"
  using getlines_save[OF assms] loadListLines_lineText[OF assms, of L' counter]
  by (simp add: loadFromFile_def saveToFile_def)

theorem list_load_appends_witness:
  "let L = insertAll (LinkedList P_NAME S_CITY ASCENDING ASCENDING) sampleContacts in
   map_option (\<lambda>(L', c). mset (head L')) (loadFromFile (Some (saveToFile L)) L 5) =
     Some (mset sampleContacts + mset sampleContacts)"
proof -
  let ?L = "insertAll (LinkedList P_NAME S_CITY ASCENDING ASCENDING) sampleContacts"
  have m: "mset (head ?L) = mset sampleContacts" by (simp add: LinkedList_def)
  have h: "list_all csv_safe (head ?L)"
  proof -
    have "list_all csv_safe sampleContacts" by (simp add: sampleContacts_def csv_safe_def newline_def)
    moreover have "set (head ?L) = set sampleContacts" using m by (metis set_mset_mset)
    ultimately show ?thesis by (simp add: list_all_iff)
  qed
  show ?thesis using list_load_appends[OF h, of ?L 5] m by (simp add: Let_def)
qed

text \<open>
  C32.  Bounds of the id counter after \<open>loadContactsFromFile\<close>: it never decreases, it
  ends above every loaded id, so ids minted afterwards are fresh, and, starting from a
  representable value, it stays representable as an \<open>int\<close> exactly when no loaded id is
  \<open>INT_MAX\<close>; a file holding id 2147483647 makes \<open>contact.id + 1\<close> overflow.
\<close>

theorem load_counter_bounds:
  assumes "loadContactsFromFile (Some content) old counter = Some (cs, counter')"
  shows "counter \<le> counter' \<and> list_all (\<lambda>c. contact_id c < counter') cs \<and>
         (counter_fits counter \<longrightarrow> (counter_fits counter' \<longleftrightarrow> list_all (\<lambda>c. contact_id c < 2 ^ 31 - 1) cs))"
proof -
  from assms have "loadLines (getlines content) ([], counter) = Some (cs, counter')"
    by (simp add: loadContactsFromFile_def)
  from loadLines_Some[OF this] have c': "counter' = fold (\<lambda>c. bumpCounter (contact_id c)) cs counter"
    by auto
  show ?thesis
    using fold_bump_ge[of counter cs] fold_bump_gt[of cs counter] fold_bump_fits[of counter cs]
    by (auto simp: c' counter_fits_def)
qed

theorem load_counter_bounds_witness:
  "loadContactsFromFile (Some ''2147483647,Max,5550001,Oslo'') [] 1 =
     Some ([\<lparr>contact_id = 2147483647, name = ''Max'', phoneNumber = ''5550001'', city = ''Oslo''\<rparr>], 2147483648) \<and>
   \<not> counter_fits 2147483648"
proof -
  have h: "loadContactsFromFile (Some ''2147483647,Max,5550001,Oslo'') [] 1 =
     Some ([\<lparr>contact_id = 2147483647, name = ''Max'', phoneNumber = ''5550001'', city = ''Oslo''\<rparr>], 2147483648)"
    by (simp add: loadContactsFromFile_def getlines_def newline_def parseLine_def substr_def stoi_def
          is_space_def is_digit_def digits_value_def bumpCounter_def)
  from load_counter_bounds[OF h] h show ?thesis by (simp add: counter_fits_def)
qed



end
