(* ===== verification/Menu.thy ===== *)
theory Menu
  imports Binary_Tree File_Format
begin

text \<open>
  The program as \<open>main\<close> (\<open>src/main.cpp\<close>) runs it: a state holding the contact vector,
  the index arrays, the AVL tree, the sorted list, the global id counter, \<open>main\<close>'s four
  local sort settings and the files, and one step per menu item.  The console answers a
  menu item reads are the arguments of its command; what it prints is its output.
  Start-up reads the contacts and builds the three structures from them; items 10 and
  11 rebuild the tree and the list after the vector changed.
\<close>

record app =
  contacts :: "contact list"
  indices :: index_array
  tree :: binary_tree
  sortedList :: linked_list
  idCounter :: int
  mainPrimaryAttr :: PrimarySortAttribute
  mainSecondaryAttr :: SecondarySortAttribute
  mainPrimaryOrder :: SortOrder
  mainSecondaryOrder :: SortOrder
  files :: "string \<Rightarrow> string option"

text \<open>The menu items, with the answers each one reads.\<close>

datatype command =
  PrintAll
| PrintNameAsc | PrintNameDesc | PrintCityAsc | PrintCityDesc
| SearchNameIter string | SearchNameRec string | SearchCityIter string | SearchCityRec string
| Edit string string string string
| Delete string
| TreeAsc | TreeDesc | TreeSearch string
| ListPrint | ListSearch string | ListRemove string
| ChangeSort int int int int
| ListSave string | ListLoad string
| Exit
| Other int

datatype menu_output =
  OContacts "contact list"
| OLookup "contact option list"
| OIds "(int + contact) list"
| ONotFound
| OListPrint "contact list option"
| OListSearch "contact list \<times> bool"
| OListRemove remove_msg
| OInvalid
| ONone

text \<open>\<open>printContacts\<close> (\<open>src/contact.cpp\<close>): every contact of the vector, in order.\<close>

definition printContacts :: "contact list \<Rightarrow> contact list" where
  "printContacts cs = cs"

text \<open>
  The loop over found ids shared by items 6--9 and 14: an id outside
  \<open>1..contacts.size()\<close> prints an error line (\<open>Inl id\<close>), any other prints
  \<open>contacts[id - 1]\<close>; an empty result prints "not found".
\<close>

definition showIds :: "contact list \<Rightarrow> int list \<Rightarrow> menu_output" where
  "showIds cs ids =
     (if ids \<noteq> [] then
        OIds (map (\<lambda>i. if i - 1 < 0 \<or> i - 1 \<ge> int (length cs) then Inl i else Inr (cs ! nat (i - 1))) ids)
      else ONotFound)"

text \<open>
  Start-up after the input (lines 74--86): the index arrays are built and sorted, each
  contact is inserted into the tree by name and into the list, which \<open>main\<close> creates
  sorted by name and then city, both ascending.
\<close>

definition initApp :: "contact list \<Rightarrow> int \<Rightarrow> app option" where
  "initApp cs counter =
     (case insertContacts BinaryTree cs of
        None \<Rightarrow> None
      | Some t \<Rightarrow>
          Some \<lparr>contacts = cs, indices = sortIndices (buildIndices cs IndexArray), tree = t,
                sortedList = insertAll (LinkedList P_NAME S_CITY ASCENDING ASCENDING) cs,
                idCounter = counter,
                mainPrimaryAttr = P_NAME, mainSecondaryAttr = S_CITY,
                mainPrimaryOrder = ASCENDING, mainSecondaryOrder = ASCENDING,
                files = (\<lambda>_. None)\<rparr>)"

text \<open>
  \<open>main\<close> up to the menu: \<open>inputContacts\<close> from an empty vector with the counter at its
  initial value 1 (\<open>src/contact.cpp\<close>, line 10), then \<open>initApp\<close>.
\<close>

definition startup :: "nat \<Rightarrow> string list \<Rightarrow> (string \<Rightarrow> string option) \<Rightarrow> (app \<times> string list) option" where
  "startup n inp fs =
     (case inputContacts n 1 inp [] of
        None \<Rightarrow> None
      | Some (cs, counter, rest) \<Rightarrow>
          (case initApp cs counter of None \<Rightarrow> None | Some s \<Rightarrow> Some (s\<lparr>files := fs\<rparr>, rest)))"

text \<open>
  Items 10 and 11 after \<open>editContact\<close> / \<open>deleteContact\<close>: a new tree and a new list are
  built from the vector, the list with \<open>main\<close>'s local sort settings
  (\<open>primaryAttr\<close> \<open>...\<close> \<open>secondaryOrder\<close>), which item 18 never updates.  Both
  start from a temporary moved into the member (\<open>tree = BinaryTree()\<close>,
  \<open>sortedList = LinkedList(...)\<close>).
\<close>

definition rebuild :: "app \<Rightarrow> app option" where
  "rebuild s =
     (let t0 = fst (bt_moveAssign False (tree s) BinaryTree) in
      case insertContacts t0 (contacts s) of
        None \<Rightarrow> None
      | Some t \<Rightarrow>
          let L0 = fst (ll_moveAssign False (sortedList s)
                          (LinkedList (mainPrimaryAttr s) (mainSecondaryAttr s)
                             (mainPrimaryOrder s) (mainSecondaryOrder s)))
          in Some (s\<lparr>tree := t, sortedList := insertAll L0 (contacts s)\<rparr>))"

text \<open>
  Item 18: each of the four answers is checked in turn (1 or 2); the first invalid one
  prints a message and leaves the menu item with nothing changed.
\<close>

definition choiceAttr :: "int \<Rightarrow> PrimarySortAttribute option" where
  "choiceAttr c = (if c = 1 then Some P_NAME else if c = 2 then Some P_CITY else None)"

definition choiceAttr2 :: "int \<Rightarrow> SecondarySortAttribute option" where
  "choiceAttr2 c = (if c = 1 then Some S_NAME else if c = 2 then Some S_CITY else None)"

definition choiceOrder :: "int \<Rightarrow> SortOrder option" where
  "choiceOrder c = (if c = 1 then Some ASCENDING else if c = 2 then Some DESCENDING else None)"

definition changeSortMenu :: "app \<Rightarrow> int \<Rightarrow> int \<Rightarrow> int \<Rightarrow> int \<Rightarrow> app \<times> menu_output" where
  "changeSortMenu s a b c d =
     (case choiceAttr a of None \<Rightarrow> (s, OInvalid) | Some pa \<Rightarrow>
      case choiceAttr2 b of None \<Rightarrow> (s, OInvalid) | Some sa \<Rightarrow>
      case choiceOrder c of None \<Rightarrow> (s, OInvalid) | Some po \<Rightarrow>
      case choiceOrder d of None \<Rightarrow> (s, OInvalid) | Some so \<Rightarrow>
        (s\<lparr>sortedList := changeSortAttributes (sortedList s) pa sa po so\<rparr>, ONone))"

text \<open>
  Item 0 saves the vector to \<open>contacts.csv\<close> and the list to \<open>linked_list.csv\<close> and
  leaves the loop.
\<close>

definition exitApp :: "app \<Rightarrow> app" where
  "exitApp s =
     s\<lparr>files := (files s)(''contacts.csv'' := Some (saveContactsToFile (contacts s)),
                          ''linked_list.csv'' := Some (saveToFile (sortedList s)))\<rparr>"

text \<open>
  Items 12--20, one handler each as in the \<open>switch\<close>: the tree's traversal (12, 13)
  and search (14, the found-id loop of \<open>showIds\<close>), the list's print (15), search
  (16) and removal (17), and the list's save (19) and load (20).  Item 20 ends the
  program (\<open>None\<close>) when \<open>std::stoi\<close> throws on the file.
\<close>

definition treeInOrderItem :: "app \<Rightarrow> bool \<Rightarrow> menu_output" where
  "treeInOrderItem s ascending = OContacts (bt_inOrder (tree s) (contacts s) ascending)"

definition treeSearchItem :: "app \<Rightarrow> string \<Rightarrow> menu_output" where
  "treeSearchItem s k = showIds (contacts s) (bt_search (tree s) k)"

definition listPrintItem :: "app \<Rightarrow> menu_output" where
  "listPrintItem s = OListPrint (printSorted (sortedList s))"

definition listSearchItem :: "app \<Rightarrow> string \<Rightarrow> menu_output" where
  "listSearchItem s k = OListSearch (ll_search (sortedList s) k)"

definition listRemoveItem :: "app \<Rightarrow> string \<Rightarrow> app \<times> menu_output" where
  "listRemoveItem s k = (let (L, m) = ll_remove (sortedList s) k in (s\<lparr>sortedList := L\<rparr>, OListRemove m))"

definition listSaveItem :: "app \<Rightarrow> string \<Rightarrow> app" where
  "listSaveItem s filename = s\<lparr>files := (files s)(filename := Some (saveToFile (sortedList s)))\<rparr>"

definition listLoadItem :: "app \<Rightarrow> string \<Rightarrow> app option" where
  "listLoadItem s filename =
     map_option (\<lambda>(L, counter). s\<lparr>sortedList := L, idCounter := counter\<rparr>)
       (loadFromFile (files s filename) (sortedList s) (idCounter s))"

text \<open>
  One pass of the menu loop for each item but 0.  \<open>None\<close> is the end of the program by
  an uncaught exception (item 20 on a file with a bad id) or a null dereference in the
  tree (which the tree theorems exclude).
\<close>

fun menuStep :: "app \<Rightarrow> command \<Rightarrow> (app \<times> menu_output) option" where
  "menuStep s PrintAll = Some (s, OContacts (printContacts (contacts s)))"
| "menuStep s PrintNameAsc = Some (s, OLookup (printSortedByName (contacts s) (nameIndexAsc (indices s))))"
| "menuStep s PrintNameDesc = Some (s, OLookup (printSortedByName (contacts s) (nameIndexDesc (indices s))))"
| "menuStep s PrintCityAsc = Some (s, OLookup (printSortedByCity (contacts s) (cityIndexAsc (indices s))))"
| "menuStep s PrintCityDesc = Some (s, OLookup (printSortedByCity (contacts s) (cityIndexDesc (indices s))))"
| "menuStep s (SearchNameIter k) =
     Some (s, showIds (contacts s) (binarySearchIterative (nameIndexAsc (indices s)) k))"
| "menuStep s (SearchNameRec k) =
     Some (s, showIds (contacts s) (binarySearchRecursive (nameIndexAsc (indices s)) k 0
                                      (int (length (nameIndexAsc (indices s))) - 1)))"
| "menuStep s (SearchCityIter k) =
     Some (s, showIds (contacts s) (binarySearchIterative (cityIndexAsc (indices s)) k))"
| "menuStep s (SearchCityRec k) =
     Some (s, showIds (contacts s) (binarySearchRecursive (cityIndexAsc (indices s)) k 0
                                      (int (length (cityIndexAsc (indices s))) - 1)))"
| "menuStep s (Edit k nn np nc) =
     (let (cs, ia) = editContact (contacts s) (indices s) k nn np nc in
      map_option (\<lambda>s. (s, ONone)) (rebuild (s\<lparr>contacts := cs, indices := ia\<rparr>)))"
| "menuStep s (Delete k) =
     (let (cs, ia) = deleteContact (contacts s) (indices s) k in
      map_option (\<lambda>s. (s, ONone)) (rebuild (s\<lparr>contacts := cs, indices := ia\<rparr>)))"
| "menuStep s TreeAsc = Some (s, treeInOrderItem s True)"
| "menuStep s TreeDesc = Some (s, treeInOrderItem s False)"
| "menuStep s (TreeSearch k) = Some (s, treeSearchItem s k)"
| "menuStep s ListPrint = Some (s, listPrintItem s)"
| "menuStep s (ListSearch k) = Some (s, listSearchItem s k)"
| "menuStep s (ListRemove k) = Some (listRemoveItem s k)"
| "menuStep s (ChangeSort a b c d) = Some (changeSortMenu s a b c d)"
| "menuStep s (ListSave f) = Some (listSaveItem s f, ONone)"
| "menuStep s (ListLoad f) = map_option (\<lambda>s. (s, ONone)) (listLoadItem s f)"
| "menuStep s Exit = Some (exitApp s, ONone)"
| "menuStep s (Other n) = Some (s, OInvalid)"

text \<open>
  The menu loop on a session, a list of items: the outputs are collected in order, and
  item 0 ends the loop after its saves.
\<close>

fun menuRun :: "app \<Rightarrow> command list \<Rightarrow> (app \<times> menu_output list) option" where
  "menuRun s [] = Some (s, [])"
| "menuRun s (Exit # cmds) = Some (exitApp s, [])"
| "menuRun s (cmd # cmds) =
     (case menuStep s cmd of
        None \<Rightarrow> None
      | Some (s', out) \<Rightarrow> map_option (\<lambda>(s'', outs). (s'', out # outs)) (menuRun s' cmds))"

text \<open>
  The states \<open>main\<close> reaches from start-up through menu items other than 11 (delete),
  and the state the vector is meant to be in for the lookups \<open>contacts[id - 1]\<close> of
  items 6--9 and 14: the contact with id \<open>i\<close> sits at position \<open>i - 1\<close>.
\<close>

fun isRebuild :: "command \<Rightarrow> bool" where
  "isRebuild (Edit k nn np nc) = True"
| "isRebuild (Delete k) = True"
| "isRebuild _ = False"

fun isDelete :: "command \<Rightarrow> bool" where
  "isDelete (Delete k) = True"
| "isDelete _ = False"

inductive reachable_nd :: "app \<Rightarrow> bool" where
  start: "startup n inp fs = Some (s, rest) \<Longrightarrow> reachable_nd s"
| step: "reachable_nd s \<Longrightarrow> \<not> isDelete cmd \<Longrightarrow> menuStep s cmd = Some (s', out) \<Longrightarrow> reachable_nd s'"

definition ids_positions :: "contact list \<Rightarrow> bool" where
  "ids_positions cs \<longleftrightarrow> map contact_id cs = map (\<lambda>i. int i + 1) [0..<length cs]"

definition menu_inv :: "app \<Rightarrow> bool" where
  "menu_inv s \<longleftrightarrow>
     index_ok (contacts s) (indices s) \<and> contacts_ok (idCounter s) (contacts s) \<and> ids_positions (contacts s)"

subsection \<open>Helper lemmas\<close>

lemmas menu_item_defs = treeInOrderItem_def treeSearchItem_def listPrintItem_def listSearchItem_def
  listRemoveItem_def listSaveItem_def listLoadItem_def

lemma rebuild_fields:
  "rebuild s = Some s' \<Longrightarrow>
   contacts s' = contacts s \<and> indices s' = indices s \<and> idCounter s' = idCounter s \<and>
   mainPrimaryAttr s' = mainPrimaryAttr s \<and> mainSecondaryAttr s' = mainSecondaryAttr s \<and>
   mainPrimaryOrder s' = mainPrimaryOrder s \<and> mainSecondaryOrder s' = mainSecondaryOrder s \<and>
   sortedList s' = insertAll (LinkedList (mainPrimaryAttr s) (mainSecondaryAttr s)
                     (mainPrimaryOrder s) (mainSecondaryOrder s)) (contacts s)"
  by (auto simp: rebuild_def split: option.splits)

lemma editContact_inv:
  assumes "index_ok cs ia" "contacts_ok counter cs" "editContact cs ia k nn np nc = (cs', ia')"
  shows "index_ok cs' ia' \<and> contacts_ok counter cs' \<and> map contact_id cs' = map contact_id cs"
proof (cases "editFirst k (editFields nn np nc) cs")
  case None
  with assms show ?thesis by (simp add: editContact_def)
next
  case (Some cs1)
  with assms(3) have "cs' = cs1" "ia' = sortIndices (buildIndices cs1 ia)" by (auto simp: editContact_def)
  with editFirst_ok[OF Some assms(2)] show ?thesis by (simp add: index_ok_build_sort)
qed

lemma ids_positions_map: "map contact_id cs' = map contact_id cs \<Longrightarrow> ids_positions cs \<Longrightarrow> ids_positions cs'"
  by (simp add: ids_positions_def) (metis length_map)

lemma loadListLines_counter:
  "loadListLines ls (L, counter) = Some (L', counter') \<Longrightarrow> counter \<le> counter'"
proof (induction ls arbitrary: L counter)
  case (Cons l ls)
  show ?case
  proof (cases "parseLine l")
    case (Inl u)
    with Cons show ?thesis by simp
  next
    case (Inr r)
    with Cons.prems obtain c where "r = Some c"
      and rec: "loadListLines ls (ll_insert L c, bumpCounter (contact_id c) counter) = Some (L', counter')"
      by (cases r) auto
    have "counter \<le> bumpCounter (contact_id c) counter" by (simp add: bumpCounter_def)
    with Cons.IH[OF rec] show ?thesis by simp
  qed
qed simp

lemma loadFromFile_counter:
  "loadFromFile f L counter = Some (L', counter') \<Longrightarrow> counter \<le> counter'"
  by (cases f) (auto simp: loadFromFile_def dest: loadListLines_counter)

lemma contacts_ok_mono: "contacts_ok c cs \<Longrightarrow> c \<le> c' \<Longrightarrow> contacts_ok c' cs"
  by (auto simp: contacts_ok_def list_all_iff)

lemma changeSortMenu_fields:
  "contacts (fst (changeSortMenu s a b c d)) = contacts s \<and> indices (fst (changeSortMenu s a b c d)) = indices s \<and>
   idCounter (fst (changeSortMenu s a b c d)) = idCounter s \<and>
   mainPrimaryAttr (fst (changeSortMenu s a b c d)) = mainPrimaryAttr s \<and>
   mainSecondaryAttr (fst (changeSortMenu s a b c d)) = mainSecondaryAttr s \<and>
   mainPrimaryOrder (fst (changeSortMenu s a b c d)) = mainPrimaryOrder s \<and>
   mainSecondaryOrder (fst (changeSortMenu s a b c d)) = mainSecondaryOrder s"
  by (simp add: changeSortMenu_def split: option.splits)

lemma menuStep_inv:
  assumes "menu_inv s" "\<not> isDelete cmd" "menuStep s cmd = Some (s', out)"
  shows "menu_inv s'"
  using assms
proof (cases cmd)
  case (Edit k nn np nc)
  obtain cs ia where e: "editContact (contacts s) (indices s) k nn np nc = (cs, ia)" by fastforce
  with assms(3) Edit obtain s1 where "rebuild (s\<lparr>contacts := cs, indices := ia\<rparr>) = Some s1" "s' = s1"
    by auto
  then have f: "contacts s' = cs" "indices s' = ia" "idCounter s' = idCounter s"
    using rebuild_fields by fastforce+
  from assms(1) have "index_ok (contacts s) (indices s)" "contacts_ok (idCounter s) (contacts s)"
    "ids_positions (contacts s)" by (simp_all add: menu_inv_def)
  from editContact_inv[OF this(1,2) e] this(3) show ?thesis
    by (simp add: menu_inv_def f ids_positions_map)
next
  case (ListLoad f)
  with assms(3) obtain L c where "loadFromFile (files s f) (sortedList s) (idCounter s) = Some (L, c)"
    "s' = s\<lparr>sortedList := L, idCounter := c\<rparr>" by (auto simp: listLoadItem_def)
  with assms(1) loadFromFile_counter show ?thesis by (auto simp: menu_inv_def intro: contacts_ok_mono)
next
  case (ChangeSort a b c d)
  with assms(1,3) changeSortMenu_fields[of s a b c d] show ?thesis
    by (auto simp: menu_inv_def)
qed (auto simp: menu_inv_def exitApp_def menu_item_defs Let_def split: prod.splits)

lemma initApp_Some:
  "\<exists>s. initApp cs counter = Some s \<and> contacts s = cs \<and> indices s = sortIndices (buildIndices cs IndexArray) \<and>
       idCounter s = counter"
proof -
  have "invar (root BinaryTree)" by (simp add: BinaryTree_def invar_def)
  from insertContacts_spec[OF this, of cs] obtain t where "insertContacts BinaryTree cs = Some t" by blast
  then show ?thesis by (simp add: initApp_def)
qed

lemma rebuild_Some: "\<exists>s'. rebuild s = Some s'"
proof -
  have "invar (root BinaryTree)" by (simp add: BinaryTree_def invar_def)
  from insertContacts_spec[OF this, of "contacts s"] show ?thesis by (auto simp: rebuild_def)
qed

lemma primaryAttribute_changeSortAttributes:
  "primaryAttribute (changeSortAttributes L pa sa po so) = pa"
proof -
  have "changeSortAttributes L pa sa po so =
          insertAll (L\<lparr>primaryAttribute := pa, secondaryAttribute := sa, primaryOrder := po,
                       secondaryOrder := so, head := []\<rparr>) (head L)"
    by (simp add: changeSortAttributes_def insertAll_def)
  then show ?thesis by simp
qed

lemma startup_inv:
  assumes "startup n inp fs = Some (s, rest)"
  shows "menu_inv s"
proof -
  from assms obtain cs counter rest0 s0 where
    i: "inputContacts n 1 inp [] = Some (cs, counter, rest0)" and
    a: "initApp cs counter = Some s0" and s: "s = s0\<lparr>files := fs\<rparr>"
    by (auto simp: startup_def split: option.splits prod.splits)
  have "contacts_ok 1 []" by (simp add: contacts_ok_def)
  from inputLoop_ok[OF i[unfolded inputContacts_def] this] obtain new where
    ok: "contacts_ok counter cs" and cs: "cs = new" and ids: "map contact_id new = map (\<lambda>i. 1 + int i) [0..<n]"
    by auto
  from arg_cong[OF ids, of length] have "length new = n" by simp
  with ids cs have pos: "ids_positions cs" by (simp add: ids_positions_def add.commute)
  from initApp_Some[of cs counter] a have "contacts s0 = cs" "indices s0 = sortIndices (buildIndices cs IndexArray)"
    "idCounter s0 = counter" by auto
  with ok pos s show ?thesis by (simp add: menu_inv_def index_ok_build_sort)
qed

lemma reachable_nd_inv: "reachable_nd s \<Longrightarrow> menu_inv s"
  by (induction rule: reachable_nd.induct) (auto intro: startup_inv menuStep_inv)

lemma ids_positions_nth:
  "ids_positions cs \<Longrightarrow> c \<in> set cs \<Longrightarrow>
   0 \<le> contact_id c - 1 \<and> contact_id c - 1 < int (length cs) \<and> cs ! nat (contact_id c - 1) = c"
proof -
  assume p: "ids_positions cs" and c: "c \<in> set cs"
  then obtain j where j: "j < length cs" "cs ! j = c" by (auto simp: in_set_conv_nth)
  from p j have "contact_id c = int j + 1"
    using arg_cong[OF p[unfolded ids_positions_def], of "\<lambda>xs. xs ! j"] j by simp
  with j show ?thesis by simp
qed

lemma showIds_positions:
  assumes p: "ids_positions cs" and m: "mset ids = mset (map contact_id (filter P cs))"
  shows "showIds cs ids =
           (if filter P cs = [] then ONotFound
            else OIds (map Inr (map (\<lambda>i. cs ! nat (i - 1)) ids)))
         \<and> mset (map (\<lambda>i. cs ! nat (i - 1)) ids) = mset (filter P cs)"
proof -
  let ?g = "\<lambda>i. cs ! nat (i - 1)"
  have sids: "set ids = contact_id ` set (filter P cs)" using m by (metis mset_map set_image_mset set_mset_mset)
  have e: "ids = [] \<longleftrightarrow> filter P cs = []" using m by (metis Nil_is_map_conv mset_zero_iff)
  have ok: "0 \<le> i - 1 \<and> i - 1 < int (length cs)" if "i \<in> set ids" for i
    using that sids ids_positions_nth[OF p] by auto
  have "map (\<lambda>i. if i - 1 < 0 \<or> i - 1 \<ge> int (length cs) then Inl i else Inr (?g i)) ids = map Inr (map ?g ids)"
    unfolding map_map by (rule map_cong[OF refl]) (use ok in force)
  moreover have "mset (map ?g ids) = mset (filter P cs)"
  proof -
    have "mset (map ?g ids) = image_mset ?g (image_mset contact_id (mset (filter P cs)))"
      by (simp add: m)
    also have "\<dots> = image_mset (?g \<circ> contact_id) (mset (filter P cs))"
      by (simp add: image_mset.compositionality)
    also have "\<dots> = image_mset id (mset (filter P cs))"
      by (rule image_mset_cong) (use ids_positions_nth[OF p] in auto)
    finally show ?thesis by simp
  qed
  ultimately show ?thesis using e by (simp add: showIds_def)
qed

subsection \<open>Properties\<close>

text \<open>
  C34.  In every state \<open>main\<close> reaches from start-up without deleting a contact (item
  11), item 6 (search by name, iterative) prints exactly the contacts with that name,
  each once, with no "incorrect ID" line, or "not found" when there is none: the ids the
  binary search returns are looked up as \<open>contacts[id - 1]\<close>, which is right because
  ids are still the positions plus one.
\<close>

theorem menu_search_by_name:
  assumes "reachable_nd s"
  shows "\<exists>out. menuStep s (SearchNameIter k) = Some (s, out) \<and>
           (if filter (\<lambda>c. name c = k) (contacts s) = [] then out = ONotFound
            else \<exists>ys. out = OIds (map Inr ys) \<and> mset ys = mset (filter (\<lambda>c. name c = k) (contacts s)))"
proof -
  from reachable_nd_inv[OF assms] have inv: "index_ok (contacts s) (indices s)" "ids_positions (contacts s)"
    by (simp_all add: menu_inv_def)
  from inv(1) have "mset (binarySearchIterative (nameIndexAsc (indices s)) k) =
                    mset (map contact_id (filter (\<lambda>c. name c = k) (contacts s)))"
    using search_entries[of "nameIndexAsc (indices s)" name_entry "contacts s" k]
    by (simp add: index_ok_def comp_def)
  from showIds_positions[OF inv(2) this] obtain ys where
    o: "showIds (contacts s) (binarySearchIterative (nameIndexAsc (indices s)) k) =
          (if filter (\<lambda>c. name c = k) (contacts s) = [] then ONotFound else OIds (map Inr ys))" and
    m: "mset ys = mset (filter (\<lambda>c. name c = k) (contacts s))" by blast
  show ?thesis using o m by simp
qed

theorem menu_search_by_name_witness:
  "\<exists>s rest. startup 2 [''Bob'', ''5550001'', ''Oslo'', ''Al'', ''5550002'', ''Rome''] (\<lambda>_. None) = Some (s, rest) \<and>
     (\<exists>out. menuStep s (SearchNameIter ''Bob'') = Some (s, out) \<and>
        (if filter (\<lambda>c. name c = ''Bob'') (contacts s) = [] then out = ONotFound
         else \<exists>ys. out = OIds (map Inr ys) \<and> mset ys = mset (filter (\<lambda>c. name c = ''Bob'') (contacts s))))"
proof -
  have "startup 2 [''Bob'', ''5550001'', ''Oslo'', ''Al'', ''5550002'', ''Rome''] (\<lambda>_. None) \<noteq> None"
    by code_simp
  then obtain s rest where h: "startup 2 [''Bob'', ''5550001'', ''Oslo'', ''Al'', ''5550002'', ''Rome''] (\<lambda>_. None)
                                 = Some (s, rest)" by fastforce
  show ?thesis using h menu_search_by_name[OF reachable_nd.start[OF h], of "''Bob''"] by blast
qed


text \<open>
  C36.  Items 10 and 11 rebuild the sorted list with \<open>main\<close>'s own sort settings, and no
  menu item changes those: whatever item 18 chose, the list after an edit or a deletion
  is sorted by the start-up settings (name, then city, ascending) again.
\<close>

theorem rebuild_resets_list_order:
  assumes "menuStep s cmd = Some (s', out)"
  shows "mainPrimaryAttr s' = mainPrimaryAttr s \<and> mainSecondaryAttr s' = mainSecondaryAttr s \<and>
         mainPrimaryOrder s' = mainPrimaryOrder s \<and> mainSecondaryOrder s' = mainSecondaryOrder s \<and>
         (isRebuild cmd \<longrightarrow>
            sortedList s' = insertAll (LinkedList (mainPrimaryAttr s) (mainSecondaryAttr s)
                                         (mainPrimaryOrder s) (mainSecondaryOrder s)) (contacts s'))"
  using assms
proof (cases cmd)
  case (Edit k nn np nc)
  with assms show ?thesis by (auto dest!: rebuild_fields split: prod.splits)
next
  case (Delete k)
  with assms show ?thesis by (auto dest!: rebuild_fields split: prod.splits)
next
  case (ChangeSort a b c d)
  with assms changeSortMenu_fields[of s a b c d] show ?thesis by auto
qed (auto simp: exitApp_def menu_item_defs split: prod.splits)

theorem rebuild_resets_list_order_witness:
  "\<exists>s0 s1 s2 o2. initApp sampleContacts 5 = Some s0 \<and>
     menuStep s0 (ChangeSort 2 1 1 1) = Some (s1, ONone) \<and> primaryAttribute (sortedList s1) = P_CITY \<and>
     menuStep s1 (Edit ''Cy'' [] [] ''Bern'') = Some (s2, o2) \<and> primaryAttribute (sortedList s2) = P_NAME"
proof -
  obtain s0 where s0: "initApp sampleContacts 5 = Some s0" using initApp_Some by blast
  then have m0: "mainPrimaryAttr s0 = P_NAME" by (auto simp: initApp_def split: option.splits)
  let ?s1 = "fst (changeSortMenu s0 2 1 1 1)"
  have s1: "menuStep s0 (ChangeSort 2 1 1 1) = Some (?s1, ONone)"
    by (simp add: changeSortMenu_def choiceAttr_def choiceAttr2_def choiceOrder_def)
  have p1: "primaryAttribute (sortedList ?s1) = P_CITY"
    by (simp add: changeSortMenu_def choiceAttr_def choiceAttr2_def choiceOrder_def
        primaryAttribute_changeSortAttributes)
  have m1: "mainPrimaryAttr ?s1 = P_NAME" using changeSortMenu_fields[of s0 2 1 1 1] m0 by simp
  obtain cs ia where e: "editContact (contacts ?s1) (indices ?s1) ''Cy'' [] [] ''Bern'' = (cs, ia)"
    by fastforce
  obtain s2 where "rebuild (?s1\<lparr>contacts := cs, indices := ia\<rparr>) = Some s2" using rebuild_Some by blast
  with e have s2: "menuStep ?s1 (Edit ''Cy'' [] [] ''Bern'') = Some (s2, ONone)" by simp
  from rebuild_resets_list_order[OF s2] m1 have "primaryAttribute (sortedList s2) = P_NAME"
    by (simp add: LinkedList_def)
  with s0 s1 p1 s2 show ?thesis by blast
qed

end
