(* ===== verification/Console.thy ===== *)
theory Console
  imports File_Format
begin

text \<open>
  The standard input stream as the program uses it: \<open>std::cin >> n\<close> on an \<open>int\<close>,
  \<open>std::cin.ignore(max, '\n')\<close>, \<open>std::getline(std::cin, s)\<close> and
  \<open>std::cin.clear()\<close>.  The stream is the characters not yet read with its
  \<open>failbit\<close> and \<open>eofbit\<close>; every operation starts with a sentry that fails, and sets
  \<open>failbit\<close>, on a stream that is not good.  The extraction of an \<open>int\<close> follows
  libstdc++: \<open>num_get\<close> reads an optional sign and the decimal digits; no digit stores 0,
  a value outside \<open>int\<close> stores \<open>INT_MIN\<close> or \<open>INT_MAX\<close>, and both set
  \<open>failbit\<close>; when the sentry fails nothing is stored (\<open>None\<close>).
\<close>

record istream =
  buf :: string
  failbit :: bool
  eofbit :: bool

definition fromText :: "string \<Rightarrow> istream" where
  "fromText s = \<lparr>buf = s, failbit = False, eofbit = False\<rparr>"

definition good :: "istream \<Rightarrow> bool" where
  "good st \<longleftrightarrow> \<not> failbit st \<and> \<not> eofbit st"

definition clear :: "istream \<Rightarrow> istream" where
  "clear st = st\<lparr>failbit := False, eofbit := False\<rparr>"

text \<open>
  \<open>istream::sentry\<close>: on a good stream, formatted input (\<open>noskipws\<close> false) skips
  white space and fails at the end of the input, setting both bits.
\<close>

definition sentry :: "bool \<Rightarrow> istream \<Rightarrow> istream \<times> bool" where
  "sentry noskipws st =
     (if \<not> good st then (st\<lparr>failbit := True\<rparr>, False)
      else if noskipws then (st, True)
      else (let r = dropWhile is_space (buf st) in
            if r = [] then (st\<lparr>buf := [], failbit := True, eofbit := True\<rparr>, False)
            else (st\<lparr>buf := r\<rparr>, True)))"

text \<open>\<open>operator>>(int&)\<close>: the value stored, if any, and the stream after.\<close>

definition extractInt :: "istream \<Rightarrow> int option \<times> istream" where
  "extractInt st0 =
     (let (st, ok) = sentry False st0 in
      if \<not> ok then (None, st)
      else
        (let s = buf st;
             (neg, s) = (case s of c # r \<Rightarrow> if c = CHR ''-'' then (True, r)
                                          else if c = CHR ''+'' then (False, r) else (False, s)
                                 | [] \<Rightarrow> (False, s));
             ds = takeWhile is_digit s;
             rest = dropWhile is_digit s;
             v = (if neg then - int (digits_value ds) else int (digits_value ds));
             st = st\<lparr>buf := rest, eofbit := (rest = [])\<rparr>
         in if ds = [] then (Some 0, st\<lparr>failbit := True\<rparr>)
            else if v < - (2 ^ 31) then (Some (- (2 ^ 31)), st\<lparr>failbit := True\<rparr>)
            else if v \<ge> 2 ^ 31 then (Some (2 ^ 31 - 1), st\<lparr>failbit := True\<rparr>)
            else (Some v, st)))"

text \<open>\<open>ignore(std::numeric_limits<std::streamsize>::max(), '\n')\<close>: up to and including the next newline.\<close>

definition ignoreLine :: "istream \<Rightarrow> istream" where
  "ignoreLine st0 =
     (let (st, ok) = sentry True st0 in
      if \<not> ok then st
      else (let r = dropWhile (\<lambda>c. c \<noteq> newline) (buf st) in
            if r = [] then st\<lparr>buf := [], eofbit := True\<rparr> else st\<lparr>buf := tl r\<rparr>))"

text \<open>
  \<open>std::getline\<close>: the characters up to the next newline, which is consumed and not
  stored; at the end of the input \<open>eofbit\<close> is set, and \<open>failbit\<close> too when nothing was
  read.  When the sentry fails the string keeps its value \<open>str\<close>.
\<close>

definition getline :: "istream \<Rightarrow> string \<Rightarrow> string \<times> istream" where
  "getline st0 str =
     (let (st, ok) = sentry True st0 in
      if \<not> ok then (str, st)
      else (let l = takeWhile (\<lambda>c. c \<noteq> newline) (buf st);
                r = dropWhile (\<lambda>c. c \<noteq> newline) (buf st) in
            if r = [] then (l, st\<lparr>buf := [], eofbit := True, failbit := (l = [])\<rparr>)
            else (l, st\<lparr>buf := tl r\<rparr>)))"

text \<open>The text of answers typed one per line.\<close>

definition lineInput :: "string list \<Rightarrow> string" where
  "lineInput ls = concat (map (\<lambda>l. l @ [newline]) ls)"

text \<open>
  A typed answer that is not a number: it starts with a character that is neither white
  space, a digit nor a sign.
\<close>

definition nonNumeric :: "string \<Rightarrow> bool" where
  "nonNumeric l \<longleftrightarrow> l \<noteq> [] \<and> newline \<notin> set l \<and> \<not> is_space (hd l) \<and> \<not> is_digit (hd l) \<and>
     hd l \<noteq> CHR ''-'' \<and> hd l \<noteq> CHR ''+''"

subsection \<open>Reading from a failed stream\<close>

lemma good_buf [simp]: "good (st\<lparr>buf := b\<rparr>) = good st"
  by (simp add: good_def)

lemma lineInput_simps [simp]: "lineInput [] = []" "lineInput (l # ls) = l @ newline # lineInput ls"
  by (simp_all add: lineInput_def)

text \<open>A stream with \<open>failbit\<close> set stays as it is and stores nothing.\<close>

lemma failed_stream [simp]:
  assumes "failbit st"
  shows "extractInt st = (None, st) \<and> ignoreLine st = st \<and> getline st str = (str, st)"
proof -
  have "\<not> good st" "st\<lparr>failbit := True\<rparr> = st" using assms by (simp_all add: good_def)
  then show ?thesis by (simp add: extractInt_def ignoreLine_def getline_def sentry_def)
qed

lemma sentry_skip_end:
  "good st \<Longrightarrow> list_all is_space (buf st) \<Longrightarrow>
   sentry False st = (st\<lparr>buf := [], failbit := True, eofbit := True\<rparr>, False)"
  by (simp add: sentry_def list_all_iff)

subsection \<open>Reading typed answers\<close>

lemma getline_line:
  assumes "good st" "buf st = l @ newline # rest" "newline \<notin> set l"
  shows "getline st str = (l, st\<lparr>buf := rest\<rparr>)"
proof -
  have "takeWhile (\<lambda>c. c \<noteq> newline) (l @ newline # rest) = l"
       "dropWhile (\<lambda>c. c \<noteq> newline) (l @ newline # rest) = newline # rest"
    using assms(3) by (induction l) auto
  with assms show ?thesis by (simp add: getline_def sentry_def)
qed

lemma ignoreLine_line:
  assumes "good st" "buf st = l @ newline # rest" "newline \<notin> set l"
  shows "ignoreLine st = st\<lparr>buf := rest\<rparr>"
proof -
  have "dropWhile (\<lambda>c. c \<noteq> newline) (l @ newline # rest) = newline # rest"
    using assms(3) by (induction l) auto
  with assms show ?thesis by (simp add: ignoreLine_def sentry_def)
qed

text \<open>The same, in the form the answers of a session take.\<close>

lemma getline_answer [simp]:
  "good st \<Longrightarrow> newline \<notin> set l \<Longrightarrow> getline (st\<lparr>buf := l @ newline # rest\<rparr>) str = (l, st\<lparr>buf := rest\<rparr>)"
  using getline_line[of "st\<lparr>buf := l @ newline # rest\<rparr>" l rest str] by simp

lemma ignoreLine_answer [simp]:
  "good st \<Longrightarrow> ignoreLine (st\<lparr>buf := newline # rest\<rparr>) = st\<lparr>buf := rest\<rparr>"
  using ignoreLine_line[of "st\<lparr>buf := newline # rest\<rparr>" "[]" rest] by simp

lemma ignoreLine_answer_line [simp]:
  "good st \<Longrightarrow> newline \<notin> set l \<Longrightarrow> ignoreLine (st\<lparr>buf := l @ newline # rest\<rparr>) = st\<lparr>buf := rest\<rparr>"
  using ignoreLine_line[of "st\<lparr>buf := l @ newline # rest\<rparr>" l rest] by simp

lemma clear_good_buf [simp]: "good st \<Longrightarrow> clear (st\<lparr>buf := b\<rparr>) = st\<lparr>buf := b\<rparr>"
  by (cases st) (simp add: clear_def good_def)

lemma clear_good [simp]:
  "good st \<Longrightarrow> clear (st\<lparr>buf := b, eofbit := e, failbit := f\<rparr>) = st\<lparr>buf := b\<rparr>"
  by (cases st) (simp add: clear_def good_def)

text \<open>A non-numeric answer stores 0, sets \<open>failbit\<close> and consumes nothing.\<close>

lemma extractInt_nonNumeric:
  assumes "good st" "nonNumeric l"
  shows "extractInt (st\<lparr>buf := l @ rest\<rparr>) = (Some 0, st\<lparr>buf := l @ rest, eofbit := False, failbit := True\<rparr>)"
proof -
  from assms(2) obtain x xs where l: "l = x # xs" and x: "\<not> is_space x" "\<not> is_digit x"
    "x \<noteq> CHR ''-''" "x \<noteq> CHR ''+''" by (cases l) (auto simp: nonNumeric_def)
  have "\<not> failbit st" "\<not> eofbit st" using assms(1) by (simp_all add: good_def)
  with l x show ?thesis by (simp add: extractInt_def sentry_def good_def)
qed

lemma int_to_string_digits:
  "\<exists>d ds. int_to_string i = (if i < 0 then CHR ''-'' # d # ds else d # ds) \<and>
          list_all is_digit (d # ds) \<and> digits_value (d # ds) = nat \<bar>i\<bar>"
proof -
  obtain d ds where nd: "nat_digits (nat \<bar>i\<bar>) = d # ds"
    using nat_digits_digits by (cases "nat_digits (nat \<bar>i\<bar>)") auto
  moreover have "list_all is_digit (d # ds)" using nat_digits_digits[of "nat \<bar>i\<bar>"] nd by simp
  moreover have "digits_value (d # ds) = nat \<bar>i\<bar>" using digits_value_nat_digits[of "nat \<bar>i\<bar>"] nd by simp
  ultimately show ?thesis by (auto simp: int_to_string_def)
qed

lemma newline_not_digit [simp]: "\<not> is_digit newline" "\<not> is_space CHR ''-''" "\<not> is_digit CHR ''-''"
  by (simp_all add: is_digit_def newline_def is_space_def)

text \<open>
  An integer printed by \<open>operator<<\<close> and a newline is read back by \<open>>>\<close> when it
  fits in an \<open>int\<close>, and clamped with \<open>failbit\<close> set when it does not.
\<close>

lemma extractInt_printed:
  assumes "good st" "buf st = int_to_string i @ newline # rest"
  shows "extractInt st =
           (if i < - (2 ^ 31) then (Some (- (2 ^ 31)), st\<lparr>buf := newline # rest, failbit := True\<rparr>)
            else if 2 ^ 31 \<le> i then (Some (2 ^ 31 - 1), st\<lparr>buf := newline # rest, failbit := True\<rparr>)
            else (Some i, st\<lparr>buf := newline # rest\<rparr>))"
proof -
  obtain d ds where its: "int_to_string i = (if i < 0 then CHR ''-'' # d # ds else d # ds)"
    and dig: "list_all is_digit (d # ds)" and val: "digits_value (d # ds) = nat \<bar>i\<bar>"
    using int_to_string_digits by blast
  have tw: "takeWhile is_digit (ds @ newline # rest) = ds"
    and dw: "dropWhile is_digit (ds @ newline # rest) = newline # rest"
    and d: "is_digit d"
    using dig by (simp_all add: list_all_iff)
  have nd: "\<not> is_space d" "d \<noteq> CHR ''-''" "d \<noteq> CHR ''+''"
    using d by (auto simp: is_space_def is_digit_def)
  have ef: "\<not> eofbit st" "\<not> failbit st" using assms(1) by (simp_all add: good_def)
  show ?thesis
  proof (cases "i < 0")
    case True
    with assms(2) its have "buf st = CHR ''-'' # d # ds @ newline # rest" by simp
    with True assms(1) tw dw d val ef show ?thesis
      by (simp add: extractInt_def sentry_def)
  next
    case False
    with assms(2) its have "buf st = d # ds @ newline # rest" by simp
    with False assms(1) tw dw d val ef nd show ?thesis
      by (simp add: extractInt_def sentry_def)
  qed
qed

lemma extractInt_int_to_string:
  "good st \<Longrightarrow> buf st = int_to_string i @ newline # rest \<Longrightarrow> - (2 ^ 31) \<le> i \<Longrightarrow> i < 2 ^ 31 \<Longrightarrow>
   extractInt st = (Some i, st\<lparr>buf := newline # rest\<rparr>)"
  by (simp add: extractInt_printed)

lemma extractInt_answer [simp]:
  "good st \<Longrightarrow> counter_fits i \<Longrightarrow>
   extractInt (st\<lparr>buf := int_to_string i @ newline # rest\<rparr>) = (Some i, st\<lparr>buf := newline # rest\<rparr>)"
  using extractInt_int_to_string[of "st\<lparr>buf := int_to_string i @ newline # rest\<rparr>" i rest]
  by (simp add: counter_fits_def)

subsection \<open>Reading at the end of the input\<close>

text \<open>
  On input holding only white space, \<open>>>\<close> stores nothing and fails, and
  \<open>ignore\<close> keeps the rest white space.
\<close>

lemma extractInt_spaces:
  assumes "list_all is_space (buf st)"
  shows "fst (extractInt st) = None \<and> failbit (snd (extractInt st)) \<and> list_all is_space (buf (snd (extractInt st)))"
proof (cases "good st")
  case True
  with assms show ?thesis by (simp add: extractInt_def sentry_skip_end)
next
  case False
  with assms show ?thesis by (simp add: extractInt_def sentry_def)
qed

lemma list_all_tl_dropWhile: "list_all P xs \<Longrightarrow> list_all P (tl (dropWhile Q xs))"
proof (cases "dropWhile Q xs")
  case (Cons y ys)
  assume "list_all P xs"
  moreover have "set ys \<subseteq> set xs" using Cons set_dropWhileD[of _ Q xs] by auto
  ultimately show ?thesis using Cons by (auto simp: list_all_iff)
next
  case Nil
  show ?thesis unfolding Nil by simp
qed

lemma ignoreLine_spaces: "list_all is_space (buf st) \<Longrightarrow> list_all is_space (buf (ignoreLine st))"
  by (simp add: ignoreLine_def sentry_def Let_def list_all_tl_dropWhile)

subsection \<open>Properties\<close>



end
