(* ===== verification/Menu_Loop.thy ===== *)
theory Menu_Loop
  imports Menu Console
begin

text \<open>
  The menu loop of \<open>main\<close> (\<open>src/main.cpp\<close>, lines 88--422) reading its answers from
  \<open>std::cin\<close>.  \<open>choice\<close> is declared before the loop, so it keeps its value when an
  extraction stores nothing; before the first extraction it is uninitialised
  (\<open>None\<close>).  Each pass reads the choice, discards the rest of its line, leaves the loop
  on 0 and otherwise runs the item, which reads its own answers from the stream.  A run
  ends as \<open>Done\<close> (item 0), \<open>Aborted\<close> (an uncaught exception, or a null dereference in
  the tree), \<open>Undefined\<close> (a branch on an uninitialised \<open>int\<close>) or \<open>OutOfFuel\<close> (the
  number of passes allowed is spent).
\<close>

datatype 'a run_result = Done 'a | Aborted | Undefined | OutOfFuel

text \<open>Items without answers, by number; any other number is the \<open>default\<close> branch.\<close>

definition plainCommand :: "int \<Rightarrow> command" where
  "plainCommand c =
     (if c = 1 then PrintAll else if c = 2 then PrintNameAsc else if c = 3 then PrintNameDesc
      else if c = 4 then PrintCityAsc else if c = 5 then PrintCityDesc
      else if c = 12 then TreeAsc else if c = 13 then TreeDesc else if c = 15 then ListPrint
      else Other c)"

text \<open>Items reading one line (a name, a city or a file name) with \<open>std::getline\<close>.\<close>

definition keyItems :: "int set" where
  "keyItems = {6, 7, 8, 9, 11, 14, 16, 17, 19, 20}"

definition keyCommand :: "int \<Rightarrow> string \<Rightarrow> command" where
  "keyCommand c k =
     (if c = 6 then SearchNameIter k else if c = 7 then SearchNameRec k
      else if c = 8 then SearchCityIter k else if c = 9 then SearchCityRec k
      else if c = 11 then Delete k else if c = 14 then TreeSearch k
      else if c = 16 then ListSearch k else if c = 17 then ListRemove k
      else if c = 19 then ListSave k else ListLoad k)"

definition stepDone :: "app \<Rightarrow> command \<Rightarrow> istream \<Rightarrow> (app \<times> menu_output \<times> istream) run_result" where
  "stepDone s cmd st = (case menuStep s cmd of None \<Rightarrow> Aborted | Some (s', out) \<Rightarrow> Done (s', out, st))"

text \<open>
  Item 10, \<open>editContact\<close>: the name to edit, and only when a contact has that name, the
  three new values.
\<close>

definition editItem :: "app \<Rightarrow> istream \<Rightarrow> (app \<times> menu_output \<times> istream) run_result" where
  "editItem s st =
     (let (k, st) = getline st [] in
      if list_ex (\<lambda>c. name c = k) (contacts s) then
        (let (nn, st) = getline st [];
             (np, st) = getline st [];
             (nc, st) = getline st []
         in stepDone s (Edit k nn np nc) st)
      else stepDone s (Edit k [] [] []) st)"

text \<open>
  Item 18: each answer is read with \<open>>>\<close> into a fresh uninitialised \<open>int\<close> and its line
  discarded, then compared; the first answer out of range ends the item.
\<close>

definition readAnswer :: "istream \<Rightarrow> int option \<times> istream" where
  "readAnswer st = (let (v, st) = extractInt st in (v, ignoreLine st))"

definition sortItem :: "app \<Rightarrow> istream \<Rightarrow> (app \<times> menu_output \<times> istream) run_result" where
  "sortItem s st =
     (case readAnswer st of (None, _) \<Rightarrow> Undefined | (Some a, st) \<Rightarrow>
      if choiceAttr a = None then Done (s, OInvalid, st) else
      case readAnswer st of (None, _) \<Rightarrow> Undefined | (Some b, st) \<Rightarrow>
      if choiceAttr2 b = None then Done (s, OInvalid, st) else
      case readAnswer st of (None, _) \<Rightarrow> Undefined | (Some c, st) \<Rightarrow>
      if choiceOrder c = None then Done (s, OInvalid, st) else
      case readAnswer st of (None, _) \<Rightarrow> Undefined | (Some d, st) \<Rightarrow>
        stepDone s (ChangeSort a b c d) st)"

text \<open>The \<open>switch (choice)\<close> for a choice other than 0.\<close>

definition menuItem :: "app \<Rightarrow> int \<Rightarrow> istream \<Rightarrow> (app \<times> menu_output \<times> istream) run_result" where
  "menuItem s c st =
     (if c = 10 then editItem s st
      else if c = 18 then sortItem s st
      else if c \<in> keyItems then (let (k, st) = getline st [] in stepDone s (keyCommand c k) st)
      else stepDone s (plainCommand c) st)"

text \<open>
  The \<open>while (true)\<close> loop with at most \<open>fuel\<close> passes; the outputs of the items are
  collected in order.
\<close>

fun mainLoop :: "nat \<Rightarrow> app \<Rightarrow> istream \<Rightarrow> int option \<Rightarrow> (app \<times> menu_output list) run_result" where
  "mainLoop 0 s st choice = OutOfFuel"
| "mainLoop (Suc fuel) s st choice =
     (let (v, st) = extractInt st;
          choice = (case v of None \<Rightarrow> choice | Some n \<Rightarrow> Some n);
          st = ignoreLine st
      in case choice of
           None \<Rightarrow> Undefined
         | Some c \<Rightarrow>
             if c = 0 then Done (exitApp s, [])
             else (case menuItem s c st of
                     Done (s', out, st') \<Rightarrow>
                       map_run_result (\<lambda>(s'', outs). (s'', out # outs)) (mainLoop fuel s' st' (Some c))
                   | Aborted \<Rightarrow> Aborted
                   | Undefined \<Rightarrow> Undefined
                   | OutOfFuel \<Rightarrow> OutOfFuel))"

subsection \<open>Sessions as typed text\<close>

text \<open>
  What a user types for a menu command: the item's number, then the answers the item
  reads in the state it runs in (the edit's three values only when the name exists, the
  sort settings up to the first invalid one).  A command can be typed when its strings
  hold no newline and its numbers are \<open>int\<close>s; \<open>Other n\<close> stands for a number outside
  \<open>0..20\<close>.  A session is typed command by command, in the states the commands
  produce, and ends with item 0.
\<close>

fun cmdNumber :: "command \<Rightarrow> int" where
  "cmdNumber PrintAll = 1" | "cmdNumber PrintNameAsc = 2" | "cmdNumber PrintNameDesc = 3"
| "cmdNumber PrintCityAsc = 4" | "cmdNumber PrintCityDesc = 5"
| "cmdNumber (SearchNameIter k) = 6" | "cmdNumber (SearchNameRec k) = 7"
| "cmdNumber (SearchCityIter k) = 8" | "cmdNumber (SearchCityRec k) = 9"
| "cmdNumber (Edit k nn np nc) = 10" | "cmdNumber (Delete k) = 11"
| "cmdNumber TreeAsc = 12" | "cmdNumber TreeDesc = 13" | "cmdNumber (TreeSearch k) = 14"
| "cmdNumber ListPrint = 15" | "cmdNumber (ListSearch k) = 16" | "cmdNumber (ListRemove k) = 17"
| "cmdNumber (ChangeSort a b c d) = 18" | "cmdNumber (ListSave f) = 19" | "cmdNumber (ListLoad f) = 20"
| "cmdNumber Exit = 0" | "cmdNumber (Other n) = n"

fun answers :: "app \<Rightarrow> command \<Rightarrow> string list" where
  "answers s (SearchNameIter k) = [k]" | "answers s (SearchNameRec k) = [k]"
| "answers s (SearchCityIter k) = [k]" | "answers s (SearchCityRec k) = [k]"
| "answers s (Edit k nn np nc) = k # (if list_ex (\<lambda>c. name c = k) (contacts s) then [nn, np, nc] else [])"
| "answers s (Delete k) = [k]" | "answers s (TreeSearch k) = [k]"
| "answers s (ListSearch k) = [k]" | "answers s (ListRemove k) = [k]"
| "answers s (ChangeSort a b c d) =
     int_to_string a # (if choiceAttr a = None then [] else
     int_to_string b # (if choiceAttr2 b = None then [] else
     int_to_string c # (if choiceOrder c = None then [] else [int_to_string d])))"
| "answers s (ListSave f) = [f]" | "answers s (ListLoad f) = [f]"
| "answers s _ = []"

definition commandText :: "app \<Rightarrow> command \<Rightarrow> string" where
  "commandText s cmd = lineInput (int_to_string (cmdNumber cmd) # answers s cmd)"

fun typable :: "command \<Rightarrow> bool" where
  "typable (SearchNameIter k) = (newline \<notin> set k)" | "typable (SearchNameRec k) = (newline \<notin> set k)"
| "typable (SearchCityIter k) = (newline \<notin> set k)" | "typable (SearchCityRec k) = (newline \<notin> set k)"
| "typable (Edit k nn np nc) = (newline \<notin> set k \<union> set nn \<union> set np \<union> set nc)"
| "typable (Delete k) = (newline \<notin> set k)" | "typable (TreeSearch k) = (newline \<notin> set k)"
| "typable (ListSearch k) = (newline \<notin> set k)" | "typable (ListRemove k) = (newline \<notin> set k)"
| "typable (ChangeSort a b c d) = (counter_fits a \<and> counter_fits b \<and> counter_fits c \<and> counter_fits d)"
| "typable (ListSave f) = (newline \<notin> set f)" | "typable (ListLoad f) = (newline \<notin> set f)"
| "typable (Other n) = (counter_fits n \<and> (n < 0 \<or> 20 < n))"
| "typable _ = True"

fun sessionText :: "app \<Rightarrow> command list \<Rightarrow> string" where
  "sessionText s [] = commandText s Exit"
| "sessionText s (cmd # cmds) =
     commandText s cmd @
       (if cmd = Exit then []
        else case menuStep s cmd of None \<Rightarrow> [] | Some (s', out) \<Rightarrow> sessionText s' cmds)"

fun isLoad :: "command \<Rightarrow> bool" where
  "isLoad (ListLoad f) = True"
| "isLoad _ = False"

subsection \<open>Fuel\<close>

text \<open>More passes never change the result of a run that has ended.\<close>

lemma mainLoop_Suc_fuel:
  "mainLoop fuel s st choice \<noteq> OutOfFuel \<Longrightarrow> mainLoop (Suc fuel) s st choice = mainLoop fuel s st choice"
proof (induction fuel arbitrary: s st choice)
  case (Suc f)
  obtain v st1 where e: "extractInt st = (v, st1)" by fastforce
  show ?case
  proof (cases "case v of None \<Rightarrow> choice | Some n \<Rightarrow> Some n")
    case None
    with e show ?thesis by simp
  next
    case (Some c)
    show ?thesis
    proof (cases "c = 0 \<or> (\<forall>x. menuItem s c (ignoreLine st1) \<noteq> Done x)")
      case True
      with e Some show ?thesis by (auto split: run_result.splits)
    next
      case False
      then obtain s' out st' where c: "c \<noteq> 0" and m: "menuItem s c (ignoreLine st1) = Done (s', out, st')"
        by auto
      with Suc.prems e Some have "mainLoop f s' st' (Some c) \<noteq> OutOfFuel"
        by (cases "mainLoop f s' st' (Some c)") auto
      from Suc.IH[OF this] e Some c m show ?thesis by simp
    qed
  qed
qed simp

lemma mainLoop_fuel_mono:
  assumes "mainLoop fuel s st choice \<noteq> OutOfFuel" "fuel \<le> fuel'"
  shows "mainLoop fuel' s st choice = mainLoop fuel s st choice"
proof -
  obtain k where k: "fuel' = fuel + k" using assms(2) le_Suc_ex by blast
  have "mainLoop (fuel + k) s st choice = mainLoop fuel s st choice"
  proof (induction k)
    case (Suc k)
    with assms(1) mainLoop_Suc_fuel[of "fuel + k" s st choice] show ?case by simp
  qed simp
  with k show ?thesis by simp
qed

subsection \<open>Items on a failed stream\<close>

lemma menuStep_Some: "\<not> isLoad cmd \<Longrightarrow> \<exists>r. menuStep s cmd = Some r"
  using rebuild_Some by (cases cmd) (auto simp: menu_item_defs split: prod.splits)

lemma stepDone_Done:
  "\<not> isLoad cmd \<Longrightarrow> \<exists>s' out. stepDone s cmd st = Done (s', out, st)"
  using menuStep_Some[of cmd s] by (auto simp: stepDone_def)

text \<open>
  On a failed stream every item but 18 and 20 reads empty answers, consumes nothing and
  returns to the loop.
\<close>

lemma menuItem_failed:
  assumes "failbit st" "c \<noteq> 18" "c \<noteq> 20"
  shows "\<exists>s' out. menuItem s c st = Done (s', out, st)"
proof -
  have "c \<in> keyItems \<Longrightarrow> \<not> isLoad (keyCommand c [])" using assms(3) by (auto simp: keyCommand_def keyItems_def)
  moreover have "\<not> isLoad (plainCommand c)" by (simp add: plainCommand_def)
  moreover have "\<not> isLoad (Edit [] [] [] [])" by simp
  ultimately show ?thesis using assms stepDone_Done
    by (auto simp: menuItem_def editItem_def Let_def)
qed

lemma mainLoop_failed:
  "failbit st \<Longrightarrow> c \<noteq> 0 \<Longrightarrow> c \<noteq> 18 \<Longrightarrow> c \<noteq> 20 \<Longrightarrow> mainLoop fuel s st (Some c) = OutOfFuel"
proof (induction fuel arbitrary: s)
  case (Suc fuel)
  from menuItem_failed[OF Suc.prems(1,3,4)] obtain s' out where "menuItem s c st = Done (s', out, st)"
    by blast
  with Suc show ?case by simp
qed simp

lemma mainLoop_failed_read:
  assumes "extractInt st = (v, st')" "failbit st'" "(case v of None \<Rightarrow> choice | Some n \<Rightarrow> Some n) = Some c"
    "c \<noteq> 0" "c \<noteq> 18" "c \<noteq> 20"
  shows "mainLoop fuel s st choice = OutOfFuel"
proof (cases fuel)
  case (Suc f)
  from menuItem_failed[OF assms(2,5,6)] obtain s' out where "menuItem s c st' = Done (s', out, st')"
    by blast
  with Suc assms mainLoop_failed[OF assms(2,4,5,6)] show ?thesis by simp
qed simp

subsection \<open>Properties\<close>

text \<open>
  C38.  Once the input is exhausted the program never leaves the menu loop: the
  extraction of \<open>choice\<close> fails and stores nothing, so \<open>choice\<close> keeps the last item
  chosen, which is run again on every pass with empty answers (items 18 and 20 aside,
  whose answers are an uninitialised \<open>int\<close> or a file that may throw).
\<close>

theorem input_end_never_exits:
  assumes "good st" "list_all is_space (buf st)" "c \<notin> {0, 18, 20}"
  shows "mainLoop fuel s st (Some c) = OutOfFuel"
proof -
  have "extractInt st = (None, st\<lparr>buf := [], failbit := True, eofbit := True\<rparr>)"
    using assms(1,2) by (simp add: extractInt_def sentry_skip_end)
  with assms(3) show ?thesis by (intro mainLoop_failed_read) auto
qed

theorem input_end_never_exits_witness:
  "good (fromText []) \<and> list_all is_space (buf (fromText [])) \<and> (1::int) \<notin> {0, 18, 20} \<and>
   mainLoop 3 (the (initApp [] 1)) (fromText []) (Some 1) = OutOfFuel"
  using input_end_never_exits[of "fromText []" 1 3 "the (initApp [] 1)"]
  by (simp add: fromText_def good_def)

text \<open>
  C39.  A menu answer that does not start with a digit or a sign makes \<open>>>\<close> store 0:
  the program saves both files and ends, as if item 0 had been chosen.
\<close>

theorem non_numeric_answer_exits:
  assumes "good st" "buf st = x # l" "\<not> is_space x" "\<not> is_digit x" "x \<noteq> CHR ''-''" "x \<noteq> CHR ''+''"
  shows "mainLoop (Suc fuel) s st choice = Done (exitApp s, [])"
proof -
  have "\<not> failbit st" "\<not> eofbit st" using assms(1) by (simp_all add: good_def)
  with assms have "extractInt st = (Some 0, st\<lparr>buf := x # l, eofbit := False, failbit := True\<rparr>)"
    by (simp add: extractInt_def sentry_def)
  then show ?thesis by simp
qed

theorem non_numeric_answer_exits_witness:
  "good (fromText ''q'') \<and> \<not> is_space (CHR ''q'') \<and> \<not> is_digit (CHR ''q'') \<and>
   mainLoop 1 (the (initApp [] 1)) (fromText ''q'') None = Done (exitApp (the (initApp [] 1)), [])"
  using non_numeric_answer_exits[of "fromText ''q''" "CHR ''q''" "[]" 0 "the (initApp [] 1)" None]
  by (simp add: fromText_def good_def is_space_def is_digit_def)

text \<open>
  C40.  A menu answer outside the range of \<open>int\<close> is stored as \<open>INT_MAX\<close> or
  \<open>INT_MIN\<close> with \<open>failbit\<close> set and never cleared: the item is reported invalid and
  the loop then runs the \<open>default\<close> branch for ever.
\<close>

theorem overflow_answer_never_exits:
  assumes "good st" "buf st = int_to_string i @ newline # rest" "i < - (2 ^ 31) \<or> 2 ^ 31 \<le> i"
  shows "mainLoop fuel s st choice = OutOfFuel"
proof (cases "i < - (2 ^ 31)")
  case True
  with extractInt_printed[OF assms(1,2)] show ?thesis by (intro mainLoop_failed_read) auto
next
  case False
  with assms(3) extractInt_printed[OF assms(1,2)] show ?thesis by (intro mainLoop_failed_read) auto
qed

theorem overflow_answer_never_exits_witness:
  "good (fromText (int_to_string 2147483648 @ [newline])) \<and>
   mainLoop 4 (the (initApp [] 1)) (fromText (int_to_string 2147483648 @ [newline])) (Some 1) = OutOfFuel"
  using overflow_answer_never_exits[of "fromText (int_to_string 2147483648 @ [newline])" 2147483648 "[]" 4
          "the (initApp [] 1)" "Some 1"]
  by (simp add: fromText_def good_def)

subsection \<open>Typed sessions\<close>

lemma editFirst_absent: "\<not> list_ex (\<lambda>c. name c = k) cs \<Longrightarrow> editFirst k f cs = None"
  by (induction cs) auto

lemma edit_absent:
  "\<not> list_ex (\<lambda>c. name c = k) (contacts s) \<Longrightarrow> menuStep s (Edit k nn np nc) = menuStep s (Edit k [] [] [])"
  by (simp add: editContact_def editFirst_absent)

lemma menuRun_Cons:
  "cmd \<noteq> Exit \<Longrightarrow> menuRun s (cmd # cmds) =
     (case menuStep s cmd of None \<Rightarrow> None
      | Some (s', out) \<Rightarrow> map_option (\<lambda>(s'', outs). (s'', out # outs)) (menuRun s' cmds))"
  by (cases cmd) auto

lemma cmdNumber_typable: "typable cmd \<Longrightarrow> cmd \<noteq> Exit \<Longrightarrow> cmdNumber cmd \<noteq> 0 \<and> counter_fits (cmdNumber cmd)"
  by (cases cmd) (auto simp: counter_fits_def)

text \<open>The answers of a command, read by the item its number selects, give the command's step.\<close>

lemma menuItem_answers:
  assumes "typable cmd" "cmd \<noteq> Exit" "good st"
  shows "menuItem s (cmdNumber cmd) (st\<lparr>buf := lineInput (answers s cmd) @ rest\<rparr>) = stepDone s cmd (st\<lparr>buf := rest\<rparr>)"
  using assms
proof (cases cmd)
  case (Edit k nn np nc)
  with assms show ?thesis
    by (cases "list_ex (\<lambda>c. name c = k) (contacts s)")
       (simp_all add: menuItem_def editItem_def stepDone_def editContact_def editFirst_absent)
next
  case (ChangeSort a b c d)
  with assms show ?thesis
    by (auto simp: menuItem_def sortItem_def readAnswer_def stepDone_def changeSortMenu_def
          counter_fits_def split: option.splits)
next
  case (Other n)
  with assms show ?thesis by (auto simp: menuItem_def keyItems_def plainCommand_def)
qed (simp_all add: menuItem_def keyItems_def keyCommand_def plainCommand_def)

lemma mainLoop_exit:
  "good st \<Longrightarrow> mainLoop (Suc fuel) s (st\<lparr>buf := commandText s Exit @ rest\<rparr>) choice = Done (exitApp s, [])"
  by (simp add: commandText_def counter_fits_def)

lemma mainLoop_session:
  "list_all typable cmds \<Longrightarrow> good st \<Longrightarrow>
   mainLoop (Suc (length cmds)) s (st\<lparr>buf := sessionText s cmds @ rest\<rparr>) choice =
     (case menuRun s (cmds @ [Exit]) of None \<Rightarrow> Aborted | Some r \<Rightarrow> Done r)"
proof (induction cmds arbitrary: s choice)
  case Nil
  then show ?case by (simp add: mainLoop_exit del: mainLoop.simps)
next
  case (Cons cmd cmds)
  show ?case
  proof (cases "cmd = Exit")
    case True
    with Cons.prems show ?thesis by (simp add: mainLoop_exit del: mainLoop.simps)
  next
    case False
    let ?tail = "case menuStep s cmd of None \<Rightarrow> [] | Some (s', out) \<Rightarrow> sessionText s' cmds"
    from Cons.prems have ty: "typable cmd" "list_all typable cmds" by simp_all
    from cmdNumber_typable[OF ty(1) False] have n: "cmdNumber cmd \<noteq> 0" "counter_fits (cmdNumber cmd)" by simp_all
    have item: "menuItem s (cmdNumber cmd) (st\<lparr>buf := lineInput (answers s cmd) @ ?tail @ rest\<rparr>) =
                stepDone s cmd (st\<lparr>buf := ?tail @ rest\<rparr>)"
      by (rule menuItem_answers[OF ty(1) False Cons.prems(2)])
    have pass: "mainLoop (Suc (length (cmd # cmds))) s (st\<lparr>buf := sessionText s (cmd # cmds) @ rest\<rparr>) choice =
        (case stepDone s cmd (st\<lparr>buf := ?tail @ rest\<rparr>) of
           Done (s', out, st') \<Rightarrow>
             map_run_result (\<lambda>(s'', outs). (s'', out # outs)) (mainLoop (Suc (length cmds)) s' st' (Some (cmdNumber cmd)))
         | Aborted \<Rightarrow> Aborted | Undefined \<Rightarrow> Undefined | OutOfFuel \<Rightarrow> OutOfFuel)"
      using n Cons.prems(2) False by (simp add: commandText_def item[symmetric] del: mainLoop.simps) simp
    show ?thesis
    proof (cases "menuStep s cmd")
      case None
      with pass False show ?thesis by (simp add: stepDone_def menuRun_Cons del: mainLoop.simps)
    next
      case (Some r)
      obtain s' out where r: "r = (s', out)" by fastforce
      from Cons.IH[OF ty(2) Cons.prems(2), of s' "Some (cmdNumber cmd)"] pass Some r False show ?thesis
        by (simp add: stepDone_def menuRun_Cons split: option.splits del: mainLoop.simps)
    qed
  qed
qed

subsection \<open>Refinement\<close>

text \<open>
  The menu loop reading \<open>std::cin\<close> implements the abstract menu: on the text a
  user types for a session of commands (each item's number and the answers it reads,
  then 0), \<open>main\<close>'s loop makes the same steps, ends in the same state and prints the
  same outputs as \<open>menuRun\<close> on the session followed by item 0, or ends the program
  where \<open>menuRun\<close> does.
\<close>

theorem mainLoop_refines_menuRun:
  assumes "list_all typable cmds" "good st" "buf st = sessionText s cmds @ rest"
  shows "mainLoop (Suc (length cmds)) s st choice =
           (case menuRun s (cmds @ [Exit]) of None \<Rightarrow> Aborted | Some r \<Rightarrow> Done r)"
proof -
  have "st = st\<lparr>buf := sessionText s cmds @ rest\<rparr>" using assms(3) by simp
  with mainLoop_session[OF assms(1,2), of s rest choice] show ?thesis by simp
qed

end
