(* ===== verification/Program.thy ===== *)
theory Program
  imports Menu_Loop
begin

text \<open>
  The whole program: \<open>main\<close> reading everything from \<open>std::cin\<close>.  Start-up runs
  \<open>inputContacts\<close> (\<open>src/contact.cpp\<close>, lines 13--59) on the stream: the count is
  read with \<open>>>\<close> until it is a non-negative number, the rest of its line is discarded,
  and each field of each contact is read with \<open>std::getline\<close> until it is valid.  These
  retry loops need not end, so they are \<open>partial_function (option)\<close>: \<open>None\<close> is a loop
  that never returns.  Then the indices, the tree and the list are built and the menu loop
  runs with \<open>choice\<close> uninitialised.
\<close>

text \<open>\<open>while(!(std::cin >> numContacts) || numContacts < 0) { clear(); ignore(); }\<close>\<close>

partial_function (option) readCount :: "istream \<Rightarrow> (int \<times> istream) option" where
  "readCount st =
     (let (v, st) = extractInt st in
      if failbit st then readCount (ignoreLine (clear st))
      else (case v of
              None \<Rightarrow> readCount (ignoreLine (clear st))
            | Some n \<Rightarrow> if n < 0 then readCount (ignoreLine (clear st)) else Some (n, st)))"

text \<open>\<open>while(true) { std::getline(std::cin, field); if(valid(field)) break; }\<close>\<close>

partial_function (option) readField ::
  "(string \<Rightarrow> bool) \<Rightarrow> istream \<Rightarrow> string \<Rightarrow> (string \<times> istream) option" where
  "readField valid st field =
     (let (field, st) = getline st field in
      if valid field then Some (field, st) else readField valid st field)"

text \<open>
  The \<open>for\<close> loop: a fresh \<open>Contact\<close> (empty strings) per iteration, its id from the
  counter, then its three fields.
\<close>

fun inputLoopS :: "nat \<Rightarrow> int \<Rightarrow> istream \<Rightarrow> contact list \<Rightarrow> (contact list \<times> int \<times> istream) option" where
  "inputLoopS 0 counter st cs = Some (cs, counter, st)"
| "inputLoopS (Suc n) counter st cs =
     (let cid = counter; counter = counter + 1 in
      case readField validateName st [] of None \<Rightarrow> None | Some (nm, st) \<Rightarrow>
      case readField validatePhoneNumber st [] of None \<Rightarrow> None | Some (ph, st) \<Rightarrow>
      case readField validateCity st [] of None \<Rightarrow> None | Some (ct, st) \<Rightarrow>
        inputLoopS n counter st
          (cs @ [\<lparr>contact_id = cid, name = nm, phoneNumber = ph, city = ct\<rparr>]))"

definition inputContactsS ::
  "istream \<Rightarrow> int \<Rightarrow> contact list \<Rightarrow> (contact list \<times> int \<times> istream) option" where
  "inputContactsS st global_id_counter cs =
     (case readCount st of
        None \<Rightarrow> None
      | Some (numContacts, st) \<Rightarrow> inputLoopS (nat numContacts) global_id_counter (ignoreLine st) cs)"

text \<open>
  \<open>main\<close> on the text of standard input and the files present: start-up, then at most
  \<open>fuel\<close> passes of the menu loop.  A start-up loop that never returns is reported as
  \<open>OutOfFuel\<close>, a run that has not ended.
\<close>

definition runMain :: "nat \<Rightarrow> string \<Rightarrow> (string \<Rightarrow> string option) \<Rightarrow> (app \<times> menu_output list) run_result" where
  "runMain fuel input fs =
     (case inputContactsS (fromText input) 1 [] of
        None \<Rightarrow> OutOfFuel
      | Some (cs, counter, st) \<Rightarrow>
          (case initApp cs counter of
             None \<Rightarrow> Aborted
           | Some s \<Rightarrow> mainLoop fuel (s\<lparr>files := fs\<rparr>) st None))"

text \<open>
  Answers to the count prompt that the loop rejects: a non-numeric line (\<open>Inl\<close>) or
  a negative number (\<open>Inr\<close>).
\<close>

definition countText :: "string + int \<Rightarrow> string" where
  "countText a = (case a of Inl l \<Rightarrow> l | Inr m \<Rightarrow> int_to_string m)"

definition rejectedCount :: "string + int \<Rightarrow> bool" where
  "rejectedCount a = (case a of Inl l \<Rightarrow> nonNumeric l | Inr m \<Rightarrow> m < 0 \<and> counter_fits m)"

subsection \<open>Start-up on typed lines\<close>

lemma readCount_typed:
  assumes "good st" "0 \<le> i" "i < 2 ^ 31"
  shows "readCount (st\<lparr>buf := int_to_string i @ newline # rest\<rparr>) = Some (i, st\<lparr>buf := newline # rest\<rparr>)"
proof -
  have "counter_fits i" using assms(2,3) by (simp add: counter_fits_def)
  with assms show ?thesis by (subst readCount.simps) (simp add: good_def)
qed

lemma readCount_rejected:
  assumes "good st" "rejectedCount a"
  shows "readCount (st\<lparr>buf := countText a @ newline # rest\<rparr>) = readCount (st\<lparr>buf := rest\<rparr>)"
proof (cases a)
  case (Inl l)
  with assms have nn: "nonNumeric l" by (simp add: rejectedCount_def)
  then have "newline \<notin> set l" by (simp add: nonNumeric_def)
  with extractInt_nonNumeric[OF assms(1) nn, of "newline # rest"] Inl assms(1) show ?thesis
    by (subst readCount.simps) (simp add: countText_def)
next
  case (Inr m)
  have "\<not> failbit st" using assms(1) by (simp add: good_def)
  with Inr assms show ?thesis
    by (subst readCount.simps) (simp add: countText_def rejectedCount_def)
qed

text \<open>On input holding only white space the count loop never returns.\<close>

lemma readCount_input_end:
  assumes "list_all is_space (buf st)"
  shows "readCount st = None"
proof (rule ccontr)
  assume "readCount st \<noteq> None"
  then obtain r where ret: "readCount st = Some r" by blast
  have "\<not> list_all is_space (buf st)"
  proof (rule readCount.raw_induct[where P = "\<lambda>st r. \<not> list_all is_space (buf st)", OF _ ret])
    fix f st r
    assume IH: "\<And>st r. f st = Some r \<Longrightarrow> \<not> list_all is_space (buf st)"
      and eq: "(let (v, st) = extractInt st in
                if failbit st then f (ignoreLine (clear st))
                else (case v of None \<Rightarrow> f (ignoreLine (clear st))
                      | Some n \<Rightarrow> if n < 0 then f (ignoreLine (clear st)) else Some (n, st))) = Some r"
    show "\<not> list_all is_space (buf st)"
    proof
      assume sp: "list_all is_space (buf st)"
      obtain st' where e: "extractInt st = (None, st')" and f: "failbit st'" and sp': "list_all is_space (buf st')"
        using extractInt_spaces[OF sp] by (cases "extractInt st") auto
      from eq e f have "f (ignoreLine (clear st')) = Some r" by simp
      moreover have "list_all is_space (buf (ignoreLine (clear st')))"
        using sp' by (intro ignoreLine_spaces) (simp add: clear_def)
      ultimately show False using IH by blast
    qed
  qed
  with assms show False by blast
qed

text \<open>
  Once the input is exhausted a field that is still invalid is never read again: the
  field loop does not return, as \<open>readValid\<close> on an exhausted list of lines says.
\<close>

lemma readField_input_end:
  assumes "buf st = []" "\<not> valid field" "\<not> valid []"
  shows "readField valid st field = None"
proof (rule ccontr)
  assume "readField valid st field \<noteq> None"
  then obtain r where ret: "readField valid st field = Some r" by blast
  have "\<not> (buf st = [] \<and> \<not> valid field)"
  proof (rule readField.raw_induct[where P = "\<lambda>valid st field r. \<not> (buf st = [] \<and> \<not> valid field \<and> \<not> valid [])",
        OF _ ret, simplified assms(3) simp_thms])
    fix f valid' st' field' r'
    assume IH: "\<And>valid st field r. f valid st field = Some r \<Longrightarrow> \<not> (buf st = [] \<and> \<not> valid field \<and> \<not> valid [])"
      and eq: "(let (field, st) = getline st' field' in
                if valid' field then Some (field, st) else f valid' st field) = Some r'"
    show "\<not> (buf st' = [] \<and> \<not> valid' field' \<and> \<not> valid' [])"
    proof
      assume h: "buf st' = [] \<and> \<not> valid' field' \<and> \<not> valid' []"
      obtain l st'' where g: "getline st' field' = (l, st'')" by fastforce
      have b: "buf st'' = []" and l: "l = [] \<or> l = field'"
        using g h by (auto simp: getline_def sentry_def Let_def split: if_splits)
      from l h have nv: "\<not> valid' l" by auto
      with eq g have "f valid' st'' l = Some r'" by simp
      from IH[OF this] b nv h show False by simp
    qed
  qed
  with assms show False by blast
qed

lemma readValid_set: "readValid v ls = Some (l, ls') \<Longrightarrow> set ls' \<subseteq> set ls"
  by (induction ls) (auto split: if_splits)

lemma readField_typed:
  assumes "readValid valid ls = Some (l, ls')" "\<forall>x \<in> set ls. newline \<notin> set x" "good st"
  shows "readField valid (st\<lparr>buf := lineInput ls @ rest\<rparr>) f = Some (l, st\<lparr>buf := lineInput ls' @ rest\<rparr>)"
  using assms(1,2)
proof (induction ls arbitrary: f)
  case (Cons x xs)
  show ?case
  proof (cases "valid x")
    case True
    with Cons.prems assms(3) show ?thesis by (subst readField.simps) simp
  next
    case False
    with Cons.prems have "readValid valid xs = Some (l, ls')" by simp
    with Cons.IH[of x] Cons.prems False assms(3) show ?thesis by (subst readField.simps) simp
  qed
qed simp

lemma inputLoopS_typed:
  assumes "inputLoop n counter ls cs = Some (cs', counter', ls')" "\<forall>x \<in> set ls. newline \<notin> set x" "good st"
  shows "inputLoopS n counter (st\<lparr>buf := lineInput ls @ rest\<rparr>) cs = Some (cs', counter', st\<lparr>buf := lineInput ls' @ rest\<rparr>)"
  using assms(1,2)
proof (induction n arbitrary: counter ls cs)
  case (Suc n)
  from Suc.prems(1) obtain nm l1 ph l2 ct l3 where
    r1: "readValid validateName ls = Some (nm, l1)" and
    r2: "readValid validatePhoneNumber l1 = Some (ph, l2)" and
    r3: "readValid validateCity l2 = Some (ct, l3)" and
    rec: "inputLoop n (counter + 1) l3 (cs @ [\<lparr>contact_id = counter, name = nm, phoneNumber = ph, city = ct\<rparr>])
            = Some (cs', counter', ls')"
    by (auto simp: Let_def split: option.splits)
  have s1: "set l1 \<subseteq> set ls" "set l2 \<subseteq> set l1" "set l3 \<subseteq> set l2"
    using readValid_set[OF r1] readValid_set[OF r2] readValid_set[OF r3] by simp_all
  with Suc.prems(2) have nl: "\<forall>x \<in> set l1. newline \<notin> set x" "\<forall>x \<in> set l2. newline \<notin> set x"
    "\<forall>x \<in> set l3. newline \<notin> set x" by blast+
  from readField_typed[OF r1 Suc.prems(2) assms(3)] readField_typed[OF r2 nl(1) assms(3)]
       readField_typed[OF r3 nl(2) assms(3)] Suc.IH[OF rec nl(3)]
  show ?case by (simp add: Let_def)
qed simp

subsection \<open>Properties\<close>

text \<open>
  C12.  Termination of the count loop of \<open>inputContacts\<close>: whatever rejected answers
  precede it (non-numeric lines, negative numbers), the loop returns as soon as a line
  holds a non-negative \<open>int\<close>, with that count and the stream just after the number.
\<close>

theorem readCount_returns:
  assumes "list_all rejectedCount bs" "good st" "0 \<le> n" "n < 2 ^ 31"
  shows "readCount (st\<lparr>buf := lineInput (map countText bs @ [int_to_string n]) @ rest\<rparr>) =
           Some (n, st\<lparr>buf := newline # rest\<rparr>)"
  using assms(1)
proof (induction bs)
  case Nil
  from readCount_typed[OF assms(2-4), of rest] show ?case by simp
next
  case (Cons a bs)
  then have "rejectedCount a" "list_all rejectedCount bs" by simp_all
  with Cons.IH readCount_rejected[OF assms(2) this(1)] show ?case by simp
qed

theorem readCount_returns_witness:
  "list_all rejectedCount [Inl ''ten'', Inr (- 3)] \<and> good (fromText []) \<and> (0::int) \<le> 2 \<and> (2::int) < 2 ^ 31 \<and>
   readCount ((fromText [])\<lparr>buf := lineInput (map countText [Inl ''ten'', Inr (- 3)] @ [int_to_string 2]) @ []\<rparr>) =
     Some (2, (fromText [])\<lparr>buf := [newline]\<rparr>)"
proof -
  have r: "list_all rejectedCount [Inl ''ten'', Inr (- 3)]"
    by (simp add: rejectedCount_def nonNumeric_def newline_def is_space_def is_digit_def counter_fits_def)
  have g: "good (fromText [])" by (simp add: fromText_def good_def)
  from readCount_returns[OF r g, of 2 "[]"] r g show ?thesis by simp
qed


text \<open>
  C37.  The whole program implements its abstract model: when standard input holds the
  number of contacts, their name, phone and city lines (invalid ones retried as the
  code does), then the text a user types for a session of menu commands and 0, \<open>main\<close>
  starts in the state \<open>startup\<close> gives and then makes the steps, prints the outputs
  and ends in the state of \<open>menuRun\<close> on the session followed by item 0, or ends the
  program where \<open>menuRun\<close> does.
\<close>

theorem runMain_refines:
  assumes "startup n ls fs = Some (s, [])" "\<forall>x \<in> set ls. newline \<notin> set x" "int n < 2 ^ 31"
    "list_all typable cmds"
  shows "runMain (Suc (length cmds)) (lineInput (int_to_string (int n) # ls) @ sessionText s cmds) fs =
           (case menuRun s (cmds @ [Exit]) of None \<Rightarrow> Aborted | Some r \<Rightarrow> Done r)"
proof -
  from assms(1) obtain cs counter s0 where
    i: "inputContacts n 1 ls [] = Some (cs, counter, [])" and a: "initApp cs counter = Some s0" and
    s: "s = s0\<lparr>files := fs\<rparr>"
    by (auto simp: startup_def split: option.splits prod.splits)
  let ?st0 = "fromText []"
  let ?sess = "sessionText s cmds"
  have g: "good ?st0" by (simp add: fromText_def good_def)
  have st: "fromText (lineInput (int_to_string (int n) # ls) @ ?sess) =
              ?st0\<lparr>buf := int_to_string (int n) @ newline # (lineInput ls @ ?sess)\<rparr>"
    by (simp add: fromText_def)
  have c: "readCount (?st0\<lparr>buf := int_to_string (int n) @ newline # (lineInput ls @ ?sess)\<rparr>) =
             Some (int n, ?st0\<lparr>buf := newline # (lineInput ls @ ?sess)\<rparr>)"
    using readCount_typed[OF g _ assms(3)] by simp
  have l: "inputLoopS n 1 (?st0\<lparr>buf := lineInput ls @ ?sess\<rparr>) [] = Some (cs, counter, ?st0\<lparr>buf := ?sess\<rparr>)"
    using inputLoopS_typed[OF i[unfolded inputContacts_def] assms(2) g, of ?sess] by simp
  have "mainLoop (Suc (length cmds)) s (?st0\<lparr>buf := ?sess @ []\<rparr>) None =
          (case menuRun s (cmds @ [Exit]) of None \<Rightarrow> Aborted | Some r \<Rightarrow> Done r)"
    by (rule mainLoop_session[OF assms(4) g])
  with st c l a s g show ?thesis by (simp add: runMain_def inputContactsS_def)
qed

theorem runMain_refines_witness:
  "\<exists>s. startup 1 [''Bob'', ''5550001'', ''Oslo''] (\<lambda>_. None) = Some (s, []) \<and>
     (\<forall>x \<in> set [''Bob'', ''5550001'', ''Oslo'']. newline \<notin> set x) \<and> int 1 < 2 ^ 31 \<and>
     list_all typable [TreeSearch ''Bob'', PrintAll] \<and>
     runMain (Suc (length [TreeSearch ''Bob'', PrintAll]))
       (lineInput (int_to_string (int 1) # [''Bob'', ''5550001'', ''Oslo'']) @
        sessionText s [TreeSearch ''Bob'', PrintAll]) (\<lambda>_. None) =
     (case menuRun s ([TreeSearch ''Bob'', PrintAll] @ [Exit]) of None \<Rightarrow> Aborted | Some r \<Rightarrow> Done r)"
proof -
  let ?ls = "[''Bob'', ''5550001'', ''Oslo'']"
  have "startup 1 ?ls (\<lambda>_. None) \<noteq> None" "snd (the (startup 1 ?ls (\<lambda>_. None))) = []"
    by code_simp+
  then obtain s where h: "startup 1 ?ls (\<lambda>_. None) = Some (s, [])" by fastforce
  have nl: "\<forall>x \<in> set ?ls. newline \<notin> set x" by (simp add: newline_def)
  have b: "int 1 < 2 ^ 31" by simp
  have t: "list_all typable [TreeSearch ''Bob'', PrintAll]" by (simp add: newline_def)
  show ?thesis using h nl b t runMain_refines[OF h nl b t] by blast
qed

end
