(* ===== verification/Menu_Invariant.thy ===== *)
theory Menu_Invariant
  imports Menu
begin

text \<open>
  The states \<open>main\<close> reaches through any sequence of menu items, deletions included,
  and what holds in all of them.  The index arrays stay consistent with the contact
  vector, the contacts stay valid with fresh ids, \<open>main\<close>'s local sort settings keep
  their initial values, and the AVL index agrees with the vector: edit and delete
  rebuild it from the vector, and no other item touches either.  The sorted list is not
  part of the invariant: item 17 removes from it alone and item 20 appends to it.
\<close>

inductive reachable :: "app \<Rightarrow> bool" where
  start: "startup n inp fs = Some (s, rest) \<Longrightarrow> reachable s"
| step: "reachable s \<Longrightarrow> menuStep s cmd = Some (s', out) \<Longrightarrow> reachable s'"

text \<open>The tree indexes exactly the vector: each name maps to the ids of its contacts, in order.\<close>

definition tree_agrees :: "binary_tree \<Rightarrow> contact list \<Rightarrow> bool" where
  "tree_agrees t cs \<longleftrightarrow>
     invar (root t) \<and> (\<forall>k. lookup (root t) k = map contact_id (filter (\<lambda>c. name c = k) cs))"

definition main_settings :: "app \<Rightarrow> bool" where
  "main_settings s \<longleftrightarrow>
     mainPrimaryAttr s = P_NAME \<and> mainSecondaryAttr s = S_CITY \<and>
     mainPrimaryOrder s = ASCENDING \<and> mainSecondaryOrder s = ASCENDING"

definition app_inv :: "app \<Rightarrow> bool" where
  "app_inv s \<longleftrightarrow>
     index_ok (contacts s) (indices s) \<and> contacts_ok (idCounter s) (contacts s) \<and>
     tree_agrees (tree s) (contacts s) \<and> main_settings s"

lemmas app_inv_simps = app_inv_def main_settings_def

subsection \<open>Preservation\<close>

lemma tree_built:
  "insertContacts BinaryTree cs = Some t \<Longrightarrow> tree_agrees t cs"
proof -
  assume b: "insertContacts BinaryTree cs = Some t"
  have "invar (root BinaryTree)" by (simp add: BinaryTree_def invar_def)
  from insertContacts_spec[OF this, of cs] b show ?thesis
    by (auto simp: tree_agrees_def BinaryTree_def)
qed

lemma rebuild_tree: "rebuild s = Some s' \<Longrightarrow> insertContacts BinaryTree (contacts s) = Some (tree s')"
  by (auto simp: rebuild_def split: option.splits)

lemma rebuild_inv:
  assumes "rebuild s = Some s'" "index_ok (contacts s) (indices s)" "contacts_ok (idCounter s) (contacts s)"
    "main_settings s"
  shows "app_inv s'"
  using assms rebuild_fields[OF assms(1)] tree_built[OF rebuild_tree[OF assms(1)]]
  by (simp add: app_inv_simps)

lemma startup_app_inv: "startup n inp fs = Some (s, rest) \<Longrightarrow> app_inv s"
proof -
  assume st: "startup n inp fs = Some (s, rest)"
  then obtain cs counter s0 where a: "initApp cs counter = Some s0" and s: "s = s0\<lparr>files := fs\<rparr>"
    by (auto simp: startup_def split: option.splits prod.splits)
  from a have t: "insertContacts BinaryTree cs = Some (tree s0)" and c: "contacts s0 = cs"
    by (auto simp: initApp_def split: option.splits)
  from a have m: "main_settings s0" by (auto simp: initApp_def main_settings_def split: option.splits)
  from startup_inv[OF st] have "index_ok (contacts s) (indices s)" "contacts_ok (idCounter s) (contacts s)"
    by (simp_all add: menu_inv_def)
  with tree_built[OF t] c m s show ?thesis by (simp add: app_inv_simps)
qed

lemma menuStep_app_inv:
  assumes "app_inv s" "menuStep s cmd = Some (s', out)"
  shows "app_inv s'"
  using assms
proof (cases cmd)
  case (Edit k nn np nc)
  obtain cs ia where e: "editContact (contacts s) (indices s) k nn np nc = (cs, ia)" by fastforce
  with assms(2) Edit have r: "rebuild (s\<lparr>contacts := cs, indices := ia\<rparr>) = Some s'" by auto
  from assms(1) have "index_ok (contacts s) (indices s)" "contacts_ok (idCounter s) (contacts s)"
    by (simp_all add: app_inv_def)
  from editContact_inv[OF this e] assms(1) show ?thesis
    by (intro rebuild_inv[OF r]) (simp_all add: app_inv_simps)
next
  case (Delete k)
  obtain cs ia where d: "deleteContact (contacts s) (indices s) k = (cs, ia)" by fastforce
  with assms(2) Delete have r: "rebuild (s\<lparr>contacts := cs, indices := ia\<rparr>) = Some s'" by auto
  from assms(1) have "index_ok (contacts s) (indices s)" "contacts_ok (idCounter s) (contacts s)"
    by (simp_all add: app_inv_def)
  from deleteContact_inv[OF this, of k] d assms(1) show ?thesis
    by (intro rebuild_inv[OF r]) (simp_all add: app_inv_simps)
next
  case (ListLoad f)
  with assms(2) obtain L c where "loadFromFile (files s f) (sortedList s) (idCounter s) = Some (L, c)"
    "s' = s\<lparr>sortedList := L, idCounter := c\<rparr>" by (auto simp: listLoadItem_def)
  with assms(1) loadFromFile_counter show ?thesis
    by (auto simp: app_inv_def main_settings_def tree_agrees_def intro: contacts_ok_mono)
next
  case (ChangeSort a b c d)
  with assms show ?thesis
    by (auto simp: app_inv_def main_settings_def tree_agrees_def changeSortMenu_def split: option.splits)
qed (auto simp: app_inv_def main_settings_def tree_agrees_def exitApp_def menu_item_defs Let_def
       split: prod.splits)

lemma reachable_app_inv: "reachable s \<Longrightarrow> app_inv s"
  by (induction rule: reachable.induct) (auto intro: startup_app_inv menuStep_app_inv)

subsection \<open>Properties\<close>

text \<open>
  C4.  In every state \<open>main\<close> reaches, whatever menu items ran before (edits,
  deletions, list removals, file loads, re-sorting), the index arrays are consistent
  with the contact vector, the contacts are valid with distinct ids below the counter,
  \<open>main\<close>'s sort settings are still name then city ascending, and the AVL index agrees
  with the vector: \<open>tree.search(name)\<close> (item 14) returns exactly the ids of the
  contacts with that name, in vector order.
\<close>

theorem reachable_index_agrees:
  assumes "reachable s"
  shows "app_inv s \<and> (\<forall>k. bt_search (tree s) k = map contact_id (filter (\<lambda>c. name c = k) (contacts s)))"
proof -
  from reachable_app_inv[OF assms] have inv: "app_inv s" .
  then have "invar (root (tree s))" "\<forall>k. lookup (root (tree s)) k = map contact_id (filter (\<lambda>c. name c = k) (contacts s))"
    by (simp_all add: app_inv_def tree_agrees_def)
  with inv show ?thesis by (auto simp: bt_search_def search_node_lookup invar_def)
qed

theorem reachable_index_agrees_witness:
  "\<exists>s rest. startup 2 [''Bob'', ''5550001'', ''Oslo'', ''Al'', ''5550002'', ''Rome''] (\<lambda>_. None) = Some (s, rest) \<and>
     (\<exists>s' out. menuStep s (Delete ''Bob'') = Some (s', out) \<and> reachable s' \<and>
        app_inv s' \<and> (\<forall>k. bt_search (tree s') k = map contact_id (filter (\<lambda>c. name c = k) (contacts s'))))"
proof -
  have "startup 2 [''Bob'', ''5550001'', ''Oslo'', ''Al'', ''5550002'', ''Rome''] (\<lambda>_. None) \<noteq> None"
    by code_simp
  then obtain s rest where h: "startup 2 [''Bob'', ''5550001'', ''Oslo'', ''Al'', ''5550002'', ''Rome''] (\<lambda>_. None)
                                 = Some (s, rest)" by fastforce
  obtain cs ia where "deleteContact (contacts s) (indices s) ''Bob'' = (cs, ia)" by fastforce
  moreover obtain s' where "rebuild (s\<lparr>contacts := cs, indices := ia\<rparr>) = Some s'" using rebuild_Some by blast
  ultimately have d: "menuStep s (Delete ''Bob'') = Some (s', ONone)" by simp
  have r: "reachable s'" by (rule reachable.step[OF reachable.start[OF h] d])
  show ?thesis using h d r reachable_index_agrees[OF r] by blast
qed

end
