(* ===== verification/Test_Scenarios.thy ===== *)
theory Test_Scenarios
  imports Linked_List
begin

text \<open>
  The linked-list test of \<open>src/test.cpp\<close> (\<open>testLinkedList\<close>).  Its names and cities
  are Cyrillic; a \<open>std::string\<close> holds their UTF-8 bytes, so they are written here as
  lists of their bytes, and \<open>std::string\<close>'s comparison, byte by byte as unsigned
  characters, is the order of \<open>string\<close>.  The test's console output is returned as a
  record with one field per print.
\<close>

text \<open>The five contacts \<open>c1\<close>--\<open>c5\<close> of the test (Boris, Alexey, Viktoria, Galina, Dmitry).\<close>

definition listTestContacts :: "contact list" where
  "listTestContacts = [
     \<lparr>contact_id = 1, name = [CHR 0xD0, CHR 0x91, CHR 0xD0, CHR 0xBE, CHR 0xD1, CHR 0x80, CHR 0xD0, CHR 0xB8,
        CHR 0xD1, CHR 0x81],
      phoneNumber = ''1111111111'', city = [CHR 0xD0, CHR 0x9C, CHR 0xD0, CHR 0xBE, CHR 0xD1, CHR 0x81, CHR 0xD0, CHR 0xBA,
        CHR 0xD0, CHR 0xB2, CHR 0xD0, CHR 0xB0]\<rparr>,
     \<lparr>contact_id = 2, name = [CHR 0xD0, CHR 0x90, CHR 0xD0, CHR 0xBB, CHR 0xD0, CHR 0xB5, CHR 0xD0, CHR 0xBA,
        CHR 0xD1, CHR 0x81, CHR 0xD0, CHR 0xB5, CHR 0xD0, CHR 0xB9],
      phoneNumber = ''2222222222'',
      city = [CHR 0xD0, CHR 0xA1, CHR 0xD0, CHR 0xB0, CHR 0xD0, CHR 0xBD, CHR 0xD0, CHR 0xBA,
        CHR 0xD1, CHR 0x82, CHR 0x2D, CHR 0xD0, CHR 0x9F, CHR 0xD0, CHR 0xB5, CHR 0xD1,
        CHR 0x82, CHR 0xD0, CHR 0xB5, CHR 0xD1, CHR 0x80, CHR 0xD0, CHR 0xB1, CHR 0xD1,
        CHR 0x83, CHR 0xD1, CHR 0x80, CHR 0xD0, CHR 0xB3]\<rparr>,
     \<lparr>contact_id = 3, name = [CHR 0xD0, CHR 0x92, CHR 0xD0, CHR 0xB8, CHR 0xD0, CHR 0xBA, CHR 0xD1, CHR 0x82,
        CHR 0xD0, CHR 0xBE, CHR 0xD1, CHR 0x80, CHR 0xD0, CHR 0xB8, CHR 0xD1, CHR 0x8F],
      phoneNumber = ''3333333333'',
      city = [CHR 0xD0, CHR 0x9D, CHR 0xD0, CHR 0xBE, CHR 0xD0, CHR 0xB2, CHR 0xD0, CHR 0xBE,
        CHR 0xD1, CHR 0x81, CHR 0xD0, CHR 0xB8, CHR 0xD0, CHR 0xB1, CHR 0xD0, CHR 0xB8,
        CHR 0xD1, CHR 0x80, CHR 0xD1, CHR 0x81, CHR 0xD0, CHR 0xBA]\<rparr>,
     \<lparr>contact_id = 4, name = [CHR 0xD0, CHR 0x93, CHR 0xD0, CHR 0xB0, CHR 0xD0, CHR 0xBB, CHR 0xD0, CHR 0xB8,
        CHR 0xD0, CHR 0xBD, CHR 0xD0, CHR 0xB0],
      phoneNumber = ''4444444444'',
      city = [CHR 0xD0, CHR 0x95, CHR 0xD0, CHR 0xBA, CHR 0xD0, CHR 0xB0, CHR 0xD1, CHR 0x82,
        CHR 0xD0, CHR 0xB5, CHR 0xD1, CHR 0x80, CHR 0xD0, CHR 0xB8, CHR 0xD0, CHR 0xBD,
        CHR 0xD0, CHR 0xB1, CHR 0xD1, CHR 0x83, CHR 0xD1, CHR 0x80, CHR 0xD0, CHR 0xB3]\<rparr>,
     \<lparr>contact_id = 5, name = [CHR 0xD0, CHR 0x94, CHR 0xD0, CHR 0xBC, CHR 0xD0, CHR 0xB8, CHR 0xD1, CHR 0x82,
        CHR 0xD1, CHR 0x80, CHR 0xD0, CHR 0xB8, CHR 0xD0, CHR 0xB9],
      phoneNumber = ''5555555555'',
      city = [CHR 0xD0, CHR 0x9D, CHR 0xD0, CHR 0xB8, CHR 0xD0, CHR 0xB6, CHR 0xD0, CHR 0xBD,
        CHR 0xD0, CHR 0xB8, CHR 0xD0, CHR 0xB9, CHR 0x20, CHR 0xD0, CHR 0x9D, CHR 0xD0,
        CHR 0xBE, CHR 0xD0, CHR 0xB2, CHR 0xD0, CHR 0xB3, CHR 0xD0, CHR 0xBE, CHR 0xD1,
        CHR 0x80, CHR 0xD0, CHR 0xBE, CHR 0xD0, CHR 0xB4]\<rparr>]"

text \<open>The name the test searches and removes that no contact has (Petr).\<close>

definition petr :: string where
  "petr = [CHR 0xD0, CHR 0x9F, CHR 0xD0, CHR 0xB5, CHR 0xD1, CHR 0x82, CHR 0xD1, CHR 0x80]"

record list_test_output =
  printedAfterInsert :: "contact list option"
  searchExisting :: "contact list \<times> bool"
  searchMissing :: "contact list \<times> bool"
  removeExisting :: remove_msg
  removeMissing :: remove_msg
  printedAfterRemove :: "contact list option"
  printedAfterResort :: "contact list option"

text \<open>
  \<open>testLinkedList\<close>, statement by statement: a list sorted by name ascending and city
  descending, five insertions, a print, two searches (Alexey, Petr), two removals
  (Galina, Petr), a print, the change to city descending and name ascending, a print.
\<close>

definition testLinkedList :: list_test_output where
  "testLinkedList =
     (let L = LinkedList P_NAME S_CITY ASCENDING DESCENDING;
          L = insertAll L listTestContacts;
          p1 = printSorted L;
          s1 = ll_search L (name (listTestContacts ! 1));
          s2 = ll_search L petr;
          (L, r1) = ll_remove L (name (listTestContacts ! 3));
          (L, r2) = ll_remove L petr;
          p2 = printSorted L;
          L = changeSortAttributes L P_CITY S_NAME DESCENDING ASCENDING;
          p3 = printSorted L
      in \<lparr>printedAfterInsert = p1, searchExisting = s1, searchMissing = s2,
          removeExisting = r1, removeMissing = r2, printedAfterRemove = p2, printedAfterResort = p3\<rparr>)"

lemma testLinkedList_output:
  "testLinkedList =
     (let c = (\<lambda>i. listTestContacts ! (i - 1)) in
      \<lparr>printedAfterInsert = Some [c 2, c 3, c 5, c 1, c 4], searchExisting = ([c 2], False),
       searchMissing = ([], True), removeExisting = Removed, removeMissing = NotFound,
       printedAfterRemove = Some [c 2, c 3, c 5, c 1], printedAfterResort = Some [c 2, c 1, c 3, c 5]\<rparr>)"
  by (simp add: testLinkedList_def listTestContacts_def petr_def insertAll_def ll_insert_def
    compare_def printSorted_def ll_search_def ll_remove_def matchesKey_def changeSortAttributes_def LinkedList_def)

lemma testLinkedList_unsorted:
  "\<exists>xs ys. printedAfterInsert testLinkedList = Some xs \<and> \<not> sorted (map name xs) \<and>
     printedAfterResort testLinkedList = Some ys \<and> \<not> sorted_wrt (\<ge>) (map city ys)"
  by (simp add: testLinkedList_output listTestContacts_def)

end
