(* ===== verification/Spec2Isabelle.thy ===== *)
theory Spec2Isabelle
  imports Program Menu_Invariant Test_Scenarios
begin

text \<open>
  \<^bold>\<open>A verified model of the contact book.\<close>

  \<^emph>\<open>The program.\<close>  The repository is a console contact book.  \<open>src/contact.cpp\<close>
  keeps the contacts in a vector (\<open>Contact\<close>: id, name, phone, city), reads and
  validates them (\<open>inputContacts\<close>), edits and deletes them, builds four sorted index
  arrays (\<open>IndexArray\<close>) and searches them by binary search, and saves and loads the
  vector as CSV.  \<open>src/binary_tree.cpp\<close> is an AVL tree from names to the list of ids
  of the contacts with that name (\<open>BinaryTree\<close>, \<open>TreeNode\<close>).
  \<open>src/linked_list.cpp\<close> keeps a second copy of the contacts in a singly linked list
  sorted by two attributes, with its own CSV save and load.  \<open>src/main.cpp\<close> is the
  menu: it builds the indices, the tree and the list from the vector at start-up and
  rebuilds them after every edit or deletion; searches print \<open>contacts[id - 1]\<close> for
  each id found.  \<open>src/test.cpp\<close> drives the tree and the list with fixed data (the tree tests in
  \<open>Binary_Tree\<close>, the list test in \<open>Test_Scenarios\<close>).

  \<^emph>\<open>Theories\<close> (each imports the ones it uses).
  \<^item> \<open>Prelude\<close>: key and id types (\<open>string\<close> under the byte order of \<open>std::string\<close>,
    \<open>int\<close>), sorted association lists and the lookup with an empty default.
  \<^item> \<open>Tree_Node\<close>, \<open>Tree_Insert\<close>, \<open>Tree_Delete\<close>: \<open>TreeNode\<close> as the datatype
    \<open>tree\<close>, the helpers, the private \<open>insert\<close> (\<open>insert_node\<close>, \<open>insert_fixup\<close>) and
    \<open>deleteNode\<close> (\<open>delete_fixup\<close>), with the invariants \<open>avl\<close>, \<open>bst\<close>,
    \<open>no_empty\<close> and \<open>invar\<close>.
  \<^item> \<open>Contact\<close>: \<open>Contact\<close>, \<open>Index\<close>, the validators, and sample contacts.
  \<^item> \<open>Binary_Tree\<close>: the class \<open>BinaryTree\<close>, its public operations and the tree
    scenarios of the specification and of \<open>src/test.cpp\<close>.
  \<^item> \<open>Index_Array\<close>: \<open>buildIndices\<close>, \<open>sortIndices\<close> (\<open>std::sort\<close> as one admissible
    insertion sort), \<open>printSortedByName\<close>/\<open>City\<close>, both binary searches.
  \<^item> \<open>Contact_Book\<close>: \<open>inputContacts\<close> (input as a list of lines), \<open>editContact\<close>,
    \<open>deleteContact\<close>.
  \<^item> \<open>Linked_List\<close>: \<open>LinkedList\<close> with \<open>compare\<close>, \<open>insert\<close>, \<open>search\<close>,
    \<open>remove\<close>, \<open>changeSortAttributes\<close>.
  \<^item> \<open>File_Format\<close>: both CSV writers and readers, with \<open>std::getline\<close>, \<open>find\<close>,
    \<open>substr\<close>, \<open>std::stoi\<close> and the id counter update.
  \<^item> \<open>Menu\<close>: \<open>main\<close> as a state record (\<open>app\<close>), one step per menu item
    (\<open>menuStep\<close>), sessions (\<open>menuRun\<close>), start-up (\<open>startup\<close>), and the states
    reachable without deletion (\<open>reachable_nd\<close>, an inductive predicate).
  \<^item> \<open>Console\<close>: \<open>std::cin\<close> as the unread characters with \<open>failbit\<close> and
    \<open>eofbit\<close>: the sentry, \<open>operator>>(int&)\<close> as libstdc++ implements it,
    \<open>ignore\<close>, \<open>std::getline\<close> and \<open>clear\<close>.
  \<^item> \<open>Menu_Loop\<close>: \<open>main\<close>'s \<open>while (true)\<close> loop reading the menu choice and each
    item's answers from that stream (\<open>mainLoop\<close>, \<open>menuItem\<close>), with \<open>choice\<close>
    kept across passes as the code declares it.
  \<^item> \<open>Program\<close>: \<open>inputContacts\<close> on the stream (the count loop and the field retry
    loops as \<open>partial_function (option)\<close>) and \<open>main\<close> as a whole (\<open>runMain\<close>).
  \<^item> \<open>Menu_Invariant\<close>: the states reachable through any menu items, deletions
    included (\<open>reachable\<close>), and the invariant \<open>app_inv\<close> that holds in all of them.
  \<^item> \<open>Test_Scenarios\<close>: \<open>testLinkedList\<close> of \<open>src/test.cpp\<close> with its Cyrillic data as
    UTF-8 bytes, evaluated by the simplifier: the test's own list prints out of name order.

  \<^emph>\<open>How the code is modelled.\<close>  Ownership by \<open>std::unique_ptr\<close> makes trees and lists
  values; a move hands the value over and leaves the source empty.  In the components
  every null dereference, uncaught exception (\<open>std::stoi\<close>) or endless retry loop
  (input exhausted) is a \<open>None\<close> of the result; the menu loop on the stream tells
  them apart (\<open>run_result\<close>: \<open>Done\<close>, \<open>Aborted\<close>, \<open>Undefined\<close> for a branch on
  an uninitialised \<open>int\<close>, \<open>OutOfFuel\<close>).  Vectors are lists, \<open>remove_if\<close>
  and \<open>erase\<close> a filter.  Console output is returned as a value; prompts are not
  modelled.  Files are their contents.  Heights are \<open>nat\<close> (far below overflow); ids
  and the id counter are \<open>int\<close>, with the representable range stated where loading can
  leave it (\<open>counter_fits\<close>); array positions of the binary searches are \<open>int\<close>
  (arrays far below \<open>2^31\<close> entries).  Loops are structural recursion, or
  \<open>function\<close> with a measure for the binary searches and their scans; the menu loop,
  which need not end, takes fuel.

  \<^emph>\<open>What is proved\<close> (claims C1--C40, stated in the component theories; the
  claim ids follow importance, not theories).  Tree (C1--C3, C5--C11, C13, C14):
  insertion and removal keep the AVL invariants and refine sorted-list operations;
  search, build and traversal are correct; two departures of removal from the specification (successor
  step duplicating a key, all occurrences erased).  Index arrays (C15--C18): build and
  sort give sorted permutations; both binary searches return exactly the matching record
  numbers; end-to-end search.  Linked list (C20--C25): insertion position, sortedness
  when the attributes are consistent, and the comparator bug that leaves \<open>main\<close>'s
  list unsorted by name (C22); search, removal of the first match, re-sorting.  Contact
  book (C26--C29): input keeps ids fresh and returns when the input is valid, deletion
  and editing keep the vector and the indices consistent.  Files (C30--C33): load after
  save is the identity for contacts the format can carry; the list loader doubles a
  reloaded list; the id counter overflows on id \<open>INT_MAX\<close>; a bad id ends the
  program.  Menu (C4, C34--C36): in every reachable state, deletions included, the index
  arrays, the contacts, \<open>main\<close>'s sort settings and the AVL index stay consistent with
  the vector, so tree search is always right (C4); without deletion, menu search prints
  exactly the contacts named; after a deletion \<open>contacts[id - 1]\<close> prints the wrong contact; edit and delete
  revert the list's sort settings.  Console (C12, C19, C37--C40): the count loop of
  \<open>inputContacts\<close> terminates once a non-negative count is typed (C12); \<open>>>\<close>
  only stores representable \<open>int\<close>s (C19); the whole program reading \<open>std::cin\<close>
  refines start-up followed by the abstract menu on typed input (C37); once the input
  ends the menu loop never exits (C38); a non-numeric answer exits as item 0 (C39); an
  answer beyond \<open>int\<close> makes the loop run for ever (C40).  Lemmas beside the claims
  include the height bound of insertion (\<open>insert_node_height\<close>), the concrete
  scenarios of the specification and the tests (\<open>scenario_insert_search\<close>,
  \<open>scenario_remove\<close>, \<open>scenario_multi_value\<close>, \<open>testLinkedList_output\<close>) and the divergence of the count loop on exhausted input
  (\<open>readCount_input_end\<close>).

  \<^emph>\<open>Fuel.\<close>  \<open>mainLoop\<close> takes the number of passes it may make.  A session of
  \<open>n\<close> commands followed by item 0 needs \<open>n + 1\<close> passes, which C37 gives it.  The
  start-up retry loops are partial functions: C12 and C37 show they return on suitable
  input; \<open>readCount_input_end\<close> and \<open>readField_input_end\<close> that they do not
  once the input is exhausted, as the line model of \<open>Contact_Book\<close> has it.  The
  non-termination results (C38, C40) hold for every amount of fuel, and more fuel never
  changes a finished run (\<open>mainLoop_fuel_mono\<close>).

  \<^emph>\<open>Not modelled.\<close>  Prompts and console formatting; \<open>std::cout\<close> and
  \<open>std::cerr\<close> as streams (what is printed is a value);
  destructors, which only free what the \<open>unique_ptr\<close>s own;
  \<open>printInsertionOrder\<close>, which no code calls and which only prints a fixed message; the failure to open a stream
  beyond leaving the state unchanged; the class declarations of the headers beyond the
  data members the records and datatypes model.
\<close>

end
